theory Spec2Isabelle
  imports Complex_Main "HOL-Library.Log_Nat" "HOL-Library.Sublist" "HOL-Library.Signed_Division"
begin

section \<open>Bytes, errors and formatting helpers\<close>

text \<open>
  Go strings and byte slices are sequences of bytes; they are modelled as \<open>string\<close>
  (lists of 8-bit characters).  Go's \<open>int\<close> is taken to be 64 bits wide.
\<close>

definition isDigit :: "char \<Rightarrow> bool" where
  "isDigit c \<longleftrightarrow> (48::nat) \<le> of_char c \<and> of_char c \<le> (57::nat)"

definition digitVal :: "char \<Rightarrow> nat" where
  "digitVal c = of_char c - 48"

text \<open>
  Go error values.  \<open>errorString\<close> is the result of \<open>errors.New\<close> (and of
  \<open>fmt.Errorf\<close> without \<open>%w\<close>): a message and nothing else.  \<open>NumError\<close> is
  \<open>*strconv.NumError\<close> with its fields \<open>Func\<close>, \<open>Num\<close>, \<open>Err\<close>.  \<open>wrapError\<close> is the
  result of \<open>fmt.Errorf\<close> with a trailing \<open>%w\<close>: the text in front of the verb and the
  wrapped error.
\<close>

datatype NumErr = ErrSyntax | ErrRange

datatype error =
    errorString string
  | NumError string string NumErr
  | wrapError string error

section \<open>IEEE binary floating point, round to nearest even\<close>

text \<open>
  Finite floating-point values are modelled by the rationals they denote.  \<open>fl_round p emin x\<close>
  is the value with a \<open>p\<close>-bit significand and least normal exponent \<open>emin\<close> nearest to
  \<open>x\<close>, ties to even; below \<open>2 ^ emin\<close> the spacing is that of the subnormals.  Overflow to
  infinity and NaN are outside the model.
\<close>

definition pw2 :: "int \<Rightarrow> rat" where
  "pw2 k = (if 0 \<le> k then 2 ^ nat k else 1 / 2 ^ nat (- k))"

definition ilog2 :: "rat \<Rightarrow> int" where
  "ilog2 x = (let (a, b) = quotient_of x;
                  k = int (floorlog 2 (nat a)) - int (floorlog 2 (nat b))
              in if pw2 k \<le> x then k else k - 1)"

definition round_even :: "rat \<Rightarrow> int" where
  "round_even x = (let f = \<lfloor>x\<rfloor>; r = x - of_int f
                   in if r < 1 / 2 then f
                      else if 1 / 2 < r then f + 1
                      else if even f then f else f + 1)"

definition fl_round :: "nat \<Rightarrow> int \<Rightarrow> rat \<Rightarrow> rat" where
  "fl_round p emin x =
     (if x = 0 then 0
      else let e = max (ilog2 \<bar>x\<bar>) emin;
               u = pw2 (e - int p + 1)
           in of_int (round_even (x / u)) * u)"

definition float64 :: "rat \<Rightarrow> rat" where
  "float64 = fl_round 53 (- 1022)"

definition float32 :: "rat \<Rightarrow> rat" where
  "float32 = fl_round 24 (- 126)"

text \<open>Conversion of a float to an integer type truncates towards zero.\<close>

definition trunc :: "rat \<Rightarrow> int" where
  "trunc x = (if 0 \<le> x then \<lfloor>x\<rfloor> else - \<lfloor>- x\<rfloor>)"

section \<open>\<open>time.ParseDuration\<close>\<close>

text \<open>
  The standard library's duration parser, for the grammar
  \<open>[-+]?([0-9]*(\.[0-9]*)?[a-z]+)+\<close>.  A duration is a signed 64-bit count of nanoseconds;
  the parser accumulates in unsigned 64-bit arithmetic with explicit overflow checks.
\<close>

type_synonym Duration = int

definition Nanosecond :: nat where "Nanosecond = 1"
definition Microsecond :: nat where "Microsecond = 1000 * Nanosecond"
definition Millisecond :: nat where "Millisecond = 1000 * Microsecond"
definition Second :: nat where "Second = 1000 * Millisecond"
definition Minute :: nat where "Minute = 60 * Second"
definition Hour :: nat where "Hour = 60 * Minute"

definition unitMap :: "string \<Rightarrow> nat option" where
  "unitMap = map_of
     [(''ns'', Nanosecond),
      (''us'', Microsecond),
      ([CHR 0xC2, CHR 0xB5, CHR ''s''], Microsecond),
      ([CHR 0xCE, CHR 0xBC, CHR ''s''], Microsecond),
      (''ms'', Millisecond),
      (''s'', Second),
      (''m'', Minute),
      (''h'', Hour)]"

definition lowerhex :: string where
  "lowerhex = ''0123456789abcdef''"

text \<open>
  \<open>time.quote\<close>: every byte of a rune below space or beyond ASCII is written as a
  \<open>\x\<close> escape, a double quote or backslash is backslashed, anything else is copied.
\<close>

definition quote_byte :: "char \<Rightarrow> string" where
  "quote_byte c =
     (let n = (of_char c :: nat)
      in if 128 \<le> n \<or> n < 32
         then [CHR 0x5C, CHR ''x'', lowerhex ! (n div 16), lowerhex ! (n mod 16)]
         else if c = CHR 0x22 \<or> c = CHR 0x5C then [CHR 0x5C, c]
         else [c])"

definition quote :: "string \<Rightarrow> string" where
  "quote s = [CHR 0x22] @ concat (map quote_byte s) @ [CHR 0x22]"

definition invalid_duration :: "string \<Rightarrow> error" where
  "invalid_duration orig = errorString (''time: invalid duration '' @ quote orig)"

fun leadingInt_loop :: "nat \<Rightarrow> string \<Rightarrow> (nat \<times> string) option" where
  "leadingInt_loop x [] = Some (x, [])"
| "leadingInt_loop x (c # s) =
     (if \<not> isDigit c then Some (x, c # s)
      else if 2 ^ 63 div 10 < x then None
      else let x' = x * 10 + digitVal c
           in if 2 ^ 63 < x' then None else leadingInt_loop x' s)"

definition leadingInt :: "string \<Rightarrow> (nat \<times> string) option" where
  "leadingInt s = leadingInt_loop 0 s"

fun leadingFraction_loop :: "nat \<Rightarrow> rat \<Rightarrow> bool \<Rightarrow> string \<Rightarrow> nat \<times> rat \<times> string" where
  "leadingFraction_loop x scale overflow [] = (x, scale, [])"
| "leadingFraction_loop x scale overflow (c # s) =
     (if \<not> isDigit c then (x, scale, c # s)
      else if overflow then leadingFraction_loop x scale overflow s
      else if (2 ^ 63 - 1) div 10 < x then leadingFraction_loop x scale True s
      else let y = x * 10 + digitVal c
           in if 2 ^ 63 < y then leadingFraction_loop x scale True s
              else leadingFraction_loop y (float64 (scale * 10)) False s)"

definition leadingFraction :: "string \<Rightarrow> nat \<times> rat \<times> string" where
  "leadingFraction s = leadingFraction_loop 0 1 False s"

definition isUnitChar :: "char \<Rightarrow> bool" where
  "isUnitChar c \<longleftrightarrow> \<not> (c = CHR ''.'' \<or> isDigit c)"

text \<open>
  One round of the parser's loop on a non-empty rest \<open>s\<close>: a number, an optional
  fraction and a unit.  The result is the round's nanoseconds and the text left.
\<close>

definition ParseDuration_step :: "string \<Rightarrow> string \<Rightarrow> error + (nat \<times> string)" where
  "ParseDuration_step orig s =
     (if \<not> (hd s = CHR ''.'' \<or> isDigit (hd s)) then Inl (invalid_duration orig)
      else case leadingInt s of
        None \<Rightarrow> Inl (invalid_duration orig)
      | Some (v, s1) \<Rightarrow>
          let pre = (length s \<noteq> length s1);
              (f, scale, s2, post) =
                (if s1 \<noteq> [] \<and> hd s1 = CHR ''.''
                 then let (f, scale, r) = leadingFraction (tl s1)
                      in (f, scale, r, length (tl s1) \<noteq> length r)
                 else (0, 1, s1, False))
          in if \<not> pre \<and> \<not> post then Inl (invalid_duration orig)
             else let u = takeWhile isUnitChar s2;
                      s3 = dropWhile isUnitChar s2
                  in if u = [] then
                       Inl (errorString (''time: missing unit in duration '' @ quote orig))
                     else case unitMap u of
                       None \<Rightarrow>
                         Inl (errorString (''time: unknown unit '' @ quote u
                                @ '' in duration '' @ quote orig))
                     | Some unit \<Rightarrow>
                         if 2 ^ 63 div unit < v then Inl (invalid_duration orig)
                         else let v1 = v * unit;
                                  v2 = (if 0 < f
                                        then (v1 + nat (trunc (float64 (float64 (of_nat f)
                                                * float64 (of_nat unit / scale))))) mod 2 ^ 64
                                        else v1)
                              in if 0 < f \<and> 2 ^ 63 < v2 then Inl (invalid_duration orig)
                                 else Inr (v2, s3))"

lemma leadingInt_loop_length:
  "leadingInt_loop x s = Some (v, r) \<Longrightarrow> length r \<le> length s"
  by (induction x s rule: leadingInt_loop.induct) (auto simp: Let_def split: if_splits)

lemma leadingFraction_loop_length:
  "leadingFraction_loop x sc ov s = (f, sc', r) \<Longrightarrow> length r \<le> length s"
  by (induction x sc ov s rule: leadingFraction_loop.induct) (auto simp: Let_def split: if_splits)

lemma ParseDuration_step_length:
  assumes "ParseDuration_step orig s = Inr (v, r)"
  shows "length r < length s"
proof -
  from assms obtain v0 s1 where li: "leadingInt s = Some (v0, s1)"
    by (auto simp: ParseDuration_step_def split: if_splits option.splits)
  have l1: "length s1 \<le> length s"
    using li unfolding leadingInt_def by (rule leadingInt_loop_length)
  define q where "q = (if s1 \<noteq> [] \<and> hd s1 = CHR ''.''
                 then let (f, scale, r) = leadingFraction (tl s1)
                      in (f, scale, r, length (tl s1) \<noteq> length r)
                 else (0, 1, s1, False))"
  obtain f scale s2 post where q: "q = (f, scale, s2, post)"
    by (cases q) auto
  have l2: "length s2 \<le> length s1"
  proof (cases "s1 \<noteq> [] \<and> hd s1 = CHR ''.''")
    case True
    obtain f' sc' r' where lf: "leadingFraction (tl s1) = (f', sc', r')"
      by (cases "leadingFraction (tl s1)") auto
    then have "length r' \<le> length (tl s1)"
      unfolding leadingFraction_def by (rule leadingFraction_loop_length)
    moreover have "s2 = r'" using q True lf by (simp add: q_def)
    ultimately show ?thesis by simp
  next
    case False
    then show ?thesis using q by (auto simp: q_def)
  qed
  from assms li q have "takeWhile isUnitChar s2 \<noteq> []" and r: "r = dropWhile isUnitChar s2"
    by (auto simp: ParseDuration_step_def Let_def q_def[symmetric]
             split: if_splits option.splits)
  then have "length r < length s2"
    by (metis append_Nil length_append less_add_same_cancel2 length_greater_0_conv
          takeWhile_dropWhile_id)
  with l1 l2 show ?thesis by simp
qed

function ParseDuration_loop :: "string \<Rightarrow> string \<Rightarrow> nat \<Rightarrow> error + nat" where
  "ParseDuration_loop orig s d =
     (if s = [] then Inr d
      else (case ParseDuration_step orig s of
              Inl e \<Rightarrow> Inl e
            | Inr (v, s') \<Rightarrow>
                let d' = (d + v) mod 2 ^ 64
                in if 2 ^ 63 < d' then Inl (invalid_duration orig)
                   else ParseDuration_loop orig s' d'))"
  by pat_completeness auto
termination
  by (relation "measure (\<lambda>(orig, s, d). length s)")
     (auto dest: ParseDuration_step_length)

definition ParseDuration :: "string \<Rightarrow> error + Duration" where
  "ParseDuration s0 =
     (let orig = s0;
          (neg, s) = (if s0 \<noteq> [] \<and> (hd s0 = CHR ''-'' \<or> hd s0 = CHR ''+'')
                      then (hd s0 = CHR ''-'', tl s0) else (False, s0))
      in if s = ''0'' then Inr 0
         else if s = [] then Inl (invalid_duration orig)
         else (case ParseDuration_loop orig s 0 of
                 Inl e \<Rightarrow> Inl e
               | Inr d \<Rightarrow>
                   if neg then Inr (- int d)
                   else if 2 ^ 63 - 1 < d then Inl (invalid_duration orig)
                   else Inr (int d)))"

section \<open>The duration codec\<close>

definition formatStrings :: "string list" where
  "formatStrings = [''h'', ''m'', ''s'', ''ms'']"

definition isSep :: "char \<Rightarrow> bool" where
  "isSep b \<longleftrightarrow> b = CHR '':'' \<or> b = CHR ''.''"

text \<open>
  The scanning loop of \<open>Duration.UnmarshalText\<close>, with the buffer \<open>sb\<close> and the counter
  \<open>currentPart\<close> as loop state; \<open>data\<close> is the whole input, for the error message.
\<close>

fun UnmarshalText_loop :: "string \<Rightarrow> string \<Rightarrow> string \<Rightarrow> nat \<Rightarrow> error + (string \<times> nat)" where
  "UnmarshalText_loop data [] sb currentPart = Inr (sb, currentPart)"
| "UnmarshalText_loop data (b # rest) sb currentPart =
     (if isSep b then
        (if currentPart = 3
         then Inl (errorString (''invalid duration format: '' @ data))
         else UnmarshalText_loop data rest (sb @ formatStrings ! currentPart) (currentPart + 1))
      else if isDigit b then UnmarshalText_loop data rest (sb @ [b]) currentPart
      else UnmarshalText_loop data rest sb currentPart)"

text \<open>
  \<open>Duration.UnmarshalText\<close> has a pointer receiver: the model takes the receiver's value
  and returns it updated together with the error, if any.
\<close>

definition Duration_UnmarshalText :: "Duration \<Rightarrow> string \<Rightarrow> Duration \<times> error option" where
  "Duration_UnmarshalText d data =
     (case UnmarshalText_loop data data [] 0 of
        Inl e \<Rightarrow> (d, Some e)
      | Inr (sb, currentPart) \<Rightarrow>
          let sb = sb @ formatStrings ! currentPart
          in if currentPart < 2
             then (d, Some (errorString (''invalid duration format: '' @ data)))
             else (case ParseDuration sb of
                     Inl err \<Rightarrow> (d, Some (wrapError ''error parsing duration: '' err))
                   | Inr dur \<Rightarrow> (dur, None)))"

section \<open>Formatting verbs of \<open>fmt.Sprintf\<close>\<close>

definition digits :: string where
  "digits = ''0123456789''"

function itoa :: "nat \<Rightarrow> string" where
  "itoa n = (if n < 10 then [digits ! n]
             else itoa (n div 10) @ [digits ! (n mod 10)])"
  by pat_completeness auto
termination
  by (relation "measure (\<lambda>n. n)") auto

declare itoa.simps [simp del]

definition pad0 :: "nat \<Rightarrow> string \<Rightarrow> string" where
  "pad0 w s = replicate (w - length s) (CHR ''0'') @ s"

text \<open>\<open>%d\<close>: an optional minus sign and the decimal digits.\<close>

definition fmt_d :: "int \<Rightarrow> string" where
  "fmt_d n = (if n < 0 then ''-'' else []) @ itoa (nat \<bar>n\<bar>)"

text \<open>
  \<open>%0wd\<close>: padded with zeros to width \<open>w\<close>; a minus sign counts towards the width and
  stands in front of the zeros.
\<close>

definition fmt_0d :: "nat \<Rightarrow> int \<Rightarrow> string" where
  "fmt_0d w n = (if n < 0 then ''-'' @ pad0 (w - 1) (itoa (nat \<bar>n\<bar>))
                 else pad0 w (itoa (nat n)))"

text \<open>
  \<open>%f\<close>: the exact value rounded to six decimals (ties to even), with at least one digit
  in front of the point.
\<close>

definition fmt_f :: "rat \<Rightarrow> string" where
  "fmt_f x = (let n = nat (round_even (\<bar>x\<bar> * 10 ^ 6))
              in (if x < 0 then ''-'' else []) @ itoa (n div 10 ^ 6) @ ''.''
                 @ pad0 6 (itoa (n mod 10 ^ 6)))"

section \<open>\<open>Duration.MarshalText\<close>\<close>

text \<open>
  The accessors of \<open>time.Duration\<close>.  Integer division and remainder truncate towards
  zero; \<open>Hours\<close>, \<open>Minutes\<close> and \<open>Seconds\<close> compute in 64-bit floating point.
\<close>

definition Hours :: "Duration \<Rightarrow> rat" where
  "Hours d = (let hour = d sdiv int Hour; nsec = d smod int Hour
              in float64 (float64 (of_int hour)
                   + float64 (float64 (of_int nsec) / (60 * 60 * 1000000000))))"

definition Minutes :: "Duration \<Rightarrow> rat" where
  "Minutes d = (let min = d sdiv int Minute; nsec = d smod int Minute
                in float64 (float64 (of_int min)
                     + float64 (float64 (of_int nsec) / (60 * 1000000000))))"

definition Seconds :: "Duration \<Rightarrow> rat" where
  "Seconds d = (let sec = d sdiv int Second; nsec = d smod int Second
                in float64 (float64 (of_int sec)
                     + float64 (float64 (of_int nsec) / 1000000000)))"

definition Milliseconds :: "Duration \<Rightarrow> int" where
  "Milliseconds d = d sdiv 1000000"

definition Duration_MarshalText :: "Duration \<Rightarrow> string" where
  "Duration_MarshalText d =
     (if d = 0 then ''00:00:00''
      else let hours = trunc (Hours d);
               minutes = trunc (Minutes d) smod 60;
               seconds = trunc (Seconds d) smod 60;
               milliseconds = Milliseconds d smod 1000;
               sb = fmt_0d 2 hours @ '':'' @ fmt_0d 2 minutes @ '':'' @ fmt_0d 2 seconds
           in if 0 < milliseconds then sb @ ''.'' @ fmt_0d 3 milliseconds else sb)"

section \<open>\<open>strconv.ParseInt\<close>\<close>

text \<open>
  The standard library's integer parser, for the bases 2 to 36 and the bit sizes 1 to 64
  (base 0, with its prefixes and underscores, is not used by this program).  It returns
  the value or a \<open>NumError\<close> naming the function, the text it was given and the reason.
\<close>

definition lower :: "nat \<Rightarrow> nat" where
  "lower c = (if (c div 32) mod 2 = 0 then c + 32 else c)"

fun ParseUint_loop :: "nat \<Rightarrow> nat \<Rightarrow> nat \<Rightarrow> string \<Rightarrow> nat \<times> NumErr option" where
  "ParseUint_loop base maxVal n [] = (n, None)"
| "ParseUint_loop base maxVal n (c # s) =
     (let b = (of_char c :: nat)
      in if \<not> (48 \<le> b \<and> b \<le> 57 \<or> 97 \<le> lower b \<and> lower b \<le> 122)
         then (0, Some ErrSyntax)
         else let d = (if 48 \<le> b \<and> b \<le> 57 then b - 48 else lower b - 97 + 10)
              in if base \<le> d then (0, Some ErrSyntax)
                 else if (2 ^ 64 - 1) div base + 1 \<le> n then (maxVal, Some ErrRange)
                 else let n1 = n * base + d
                      in if 2 ^ 64 \<le> n1 \<or> maxVal < n1 then (maxVal, Some ErrRange)
                         else ParseUint_loop base maxVal n1 s)"

definition ParseUint :: "string \<Rightarrow> nat \<Rightarrow> nat \<Rightarrow> nat \<times> NumErr option" where
  "ParseUint s base bitSize =
     (if s = [] then (0, Some ErrSyntax)
      else ParseUint_loop base (2 ^ bitSize - 1) 0 s)"

definition ParseInt :: "string \<Rightarrow> nat \<Rightarrow> nat \<Rightarrow> error + int" where
  "ParseInt s0 base bitSize =
     (if s0 = [] then Inl (NumError ''ParseInt'' s0 ErrSyntax)
      else let neg = (hd s0 = CHR ''-'');
               s = (if hd s0 = CHR ''+'' \<or> hd s0 = CHR ''-'' then tl s0 else s0);
               (un, err) = ParseUint s base bitSize;
               cutoff = 2 ^ (bitSize - 1)
           in if err = Some ErrSyntax then Inl (NumError ''ParseInt'' s0 ErrSyntax)
              else if \<not> neg \<and> cutoff \<le> un then Inl (NumError ''ParseInt'' s0 ErrRange)
              else if neg \<and> cutoff < un then Inl (NumError ''ParseInt'' s0 ErrRange)
              else Inr (if neg then - int un else int un))"

section \<open>The time offset codec\<close>

definition HasSuffix :: "string \<Rightarrow> string \<Rightarrow> bool" where
  "HasSuffix s suf \<longleftrightarrow> length suf \<le> length s \<and> drop (length s - length suf) s = suf"

definition TrimSuffix :: "string \<Rightarrow> string \<Rightarrow> string" where
  "TrimSuffix s suf = (if HasSuffix s suf then take (length s - length suf) s else s)"

definition HasPrefix :: "string \<Rightarrow> string \<Rightarrow> bool" where
  "HasPrefix s pre \<longleftrightarrow> length pre \<le> length s \<and> take (length pre) s = pre"

definition TrimPrefix :: "string \<Rightarrow> string \<Rightarrow> string" where
  "TrimPrefix s pre = (if HasPrefix s pre then drop (length pre) s else s)"

text \<open>
  The struct \<open>TimeOffset\<close>.  The pointer field \<open>Duration\<close> is \<open>None\<close> when nil; the
  pointer is never shared, so the pointee is stored in its place.  \<open>Percent\<close> is a 32-bit
  float.
\<close>

record TimeOffset =
  Duration :: "Duration option"
  Position :: int
  Percent :: rat

definition OffsetStart :: int where "OffsetStart = - 1"
definition OffsetEnd :: int where "OffsetEnd = - 2"

text \<open>
  \<open>TimeOffset.UnmarshalText\<close> has a pointer receiver: the model takes the receiver's
  value and returns it as the call leaves it, together with the error, if any.
\<close>

definition TimeOffset_UnmarshalText :: "TimeOffset \<Rightarrow> string \<Rightarrow> TimeOffset \<times> error option" where
  "TimeOffset_UnmarshalText to data =
     (if data = ''start'' then (to\<lparr>Position := OffsetStart\<rparr>, None)
      else if data = ''end'' then (to\<lparr>Position := OffsetEnd\<rparr>, None)
      else if HasSuffix data ''%'' then
        (case ParseInt (TrimSuffix data ''%'') 10 8 of
           Inl err \<Rightarrow> (to, Some (wrapError ''error parsing percentage offset: '' err))
         | Inr p \<Rightarrow> (to\<lparr>Percent := float32 (float32 (of_int p) / 100)\<rparr>, None))
      else if HasPrefix data ''#'' then
        (case ParseInt (TrimPrefix data ''#'') 10 8 of
           Inl err \<Rightarrow> (to, Some (wrapError ''error parsing position offset: '' err))
         | Inr p \<Rightarrow> (to\<lparr>Position := p\<rparr>, None))
      else let d = 0;
               (d', err) = Duration_UnmarshalText d data
           in (to\<lparr>Duration := Some d'\<rparr>, err))"

definition TimeOffset_MarshalText :: "TimeOffset \<Rightarrow> string" where
  "TimeOffset_MarshalText to =
     (case Duration to of
        Some d \<Rightarrow> Duration_MarshalText d
      | None \<Rightarrow>
          if Position to \<noteq> 0 then ''#'' @ fmt_d (Position to)
          else if Percent to \<noteq> 0 then fmt_f (float32 (Percent to * 100)) @ ''%''
          else [])"

text \<open>The zero value of \<open>TimeOffset\<close>, into which a document is decoded.\<close>

definition TimeOffset_zero :: TimeOffset where
  "TimeOffset_zero = \<lparr>Duration = None, Position = 0, Percent = 0\<rparr>"

section \<open>Error messages\<close>

text \<open>
  \<open>strconv.Quote\<close> on ASCII bytes: a double quote or backslash is backslashed, a
  printable byte is copied, a control byte is written with its letter escape or as a
  \<open>\x\<close> escape.  A byte beyond ASCII is written as a \<open>\x\<close> escape, which is Go's
  rendering of a byte that is not part of a valid UTF-8 encoding; valid encodings of
  runes beyond ASCII (copied when printable, \<open>\u\<close> escapes otherwise) depend on Unicode
  tables and are outside the model.  \<open>Error\<close> is the message of an error value.
\<close>

definition Quote_byte :: "char \<Rightarrow> string" where
  "Quote_byte c =
     (let n = (of_char c :: nat)
      in if c = CHR 0x22 \<or> c = CHR 0x5C then [CHR 0x5C, c]
         else if 32 \<le> n \<and> n < 127 then [c]
         else if n = 7 then [CHR 0x5C, CHR ''a'']
         else if n = 8 then [CHR 0x5C, CHR ''b'']
         else if n = 12 then [CHR 0x5C, CHR ''f'']
         else if n = 10 then [CHR 0x5C, CHR ''n'']
         else if n = 13 then [CHR 0x5C, CHR ''r'']
         else if n = 9 then [CHR 0x5C, CHR ''t'']
         else if n = 11 then [CHR 0x5C, CHR ''v'']
         else [CHR 0x5C, CHR ''x'', lowerhex ! (n div 16), lowerhex ! (n mod 16)])"

definition Quote :: "string \<Rightarrow> string" where
  "Quote s = [CHR 0x22] @ concat (map Quote_byte s) @ [CHR 0x22]"

fun Error :: "error \<Rightarrow> string" where
  "Error (errorString m) = m"
| "Error (NumError f n k) =
     ''strconv.'' @ f @ '': parsing '' @ Quote n @ '': ''
       @ (case k of ErrSyntax \<Rightarrow> ''invalid syntax'' | ErrRange \<Rightarrow> ''value out of range'')"
| "Error (wrapError p e) = p @ Error e"

section \<open>Notions of the specification\<close>

text \<open>The number of separators, \<open>:\<close> or \<open>.\<close>, in an input.\<close>

definition seps :: "string \<Rightarrow> nat" where
  "seps data = length (filter isSep data)"

text \<open>
  A decimal integer within the signed 8-bit range, as the specification words it: an
  optional sign, then one or more decimal digits and nothing else, denoting a value from
  -128 to 127.  \<open>int8_value\<close> is the integer such a text denotes.
\<close>

definition decimal_step :: "nat \<Rightarrow> char \<Rightarrow> nat" where
  "decimal_step n c = n * 10 + digitVal c"

definition decimal_value :: "string \<Rightarrow> nat" where
  "decimal_value ds = foldl decimal_step 0 ds"

definition is_int8_text :: "string \<Rightarrow> bool" where
  "is_int8_text s \<longleftrightarrow>
     (let neg = (s \<noteq> [] \<and> hd s = CHR ''-'');
          ds = (if s \<noteq> [] \<and> (hd s = CHR ''+'' \<or> hd s = CHR ''-'') then tl s else s)
      in ds \<noteq> [] \<and> list_all isDigit ds
         \<and> (if neg then decimal_value ds \<le> 128 else decimal_value ds \<le> 127))"

definition int8_value :: "string \<Rightarrow> int" where
  "int8_value s =
     (if s \<noteq> [] \<and> hd s = CHR ''-'' then - int (decimal_value (tl s))
      else if s \<noteq> [] \<and> hd s = CHR ''+'' then int (decimal_value (tl s))
      else int (decimal_value s))"

text \<open>
  The interleaved sequence of digits and separators of an input: every other byte is
  dropped and the kind of separator is forgotten.
\<close>

definition skeleton :: "string \<Rightarrow> string" where
  "skeleton data = map (\<lambda>c. if isSep c then CHR '':'' else c)
                       (filter (\<lambda>c. isSep c \<or> isDigit c) data)"

text \<open>
  The fields of an input: the runs of digits between separators, other bytes dropped.
  Field 0 stands in front of the first separator (hours), field 1 after it (minutes),
  field 2 after the second (seconds) and field 3 after the third (milliseconds).
\<close>

fun fields :: "string \<Rightarrow> string list" where
  "fields [] = [[]]"
| "fields (b # rest) =
     (if isSep b then [] # fields rest
      else if isDigit b then (case fields rest of f # fs \<Rightarrow> (b # f) # fs | [] \<Rightarrow> [[b]])
      else fields rest)"

text \<open>
  The text handed to the duration parser: the Nth field followed by the Nth unit name.
\<close>

fun with_units :: "string list \<Rightarrow> string list \<Rightarrow> string" where
  "with_units (f # fs) (u # us) = f @ u @ with_units fs us"
| "with_units _ _ = []"

definition duration_string :: "string \<Rightarrow> string" where
  "duration_string data = with_units (fields data) formatStrings"

section \<open>Facts about rounding\<close>

lemma pw2_powi: "pw2 k = 2 powi k"
  by (simp add: pw2_def power_int_def inverse_eq_divide power_one_over)

lemma pw2_pos: "0 < pw2 k"
  by (simp add: pw2_powi)

lemma pw2_add: "pw2 (i + j) = pw2 i * pw2 j"
  by (simp add: pw2_powi power_int_add)

lemma pw2_diff: "pw2 (i - j) = pw2 i / pw2 j"
  by (simp add: pw2_powi power_int_diff)

lemma pw2_nat: "pw2 (int n) = 2 ^ n"
  by (simp add: pw2_def)

lemma pw2_mono: "i \<le> j \<Longrightarrow> pw2 i \<le> pw2 j"
  by (simp add: pw2_powi power_int_increasing)

lemma pw2_strict_mono: "i < j \<Longrightarrow> pw2 i < pw2 j"
  by (simp add: pw2_powi power_int_strict_increasing)

lemma ilog2_bounds:
  assumes "0 < x"
  shows "pw2 (ilog2 x) \<le> x" and "x < pw2 (ilog2 x + 1)"
proof -
  obtain a b where q: "quotient_of x = (a, b)" by (cases "quotient_of x") auto
  have b: "0 < b" using q by (rule quotient_of_denom_pos)
  have x: "x = of_int a / of_int b" using q by (rule quotient_of_div)
  have a: "0 < a" using assms b x by (simp add: zero_less_divide_iff)
  define la where "la = floorlog 2 (nat a)"
  define lb where "lb = floorlog 2 (nat b)"
  have la0: "0 < la" using a by (simp add: la_def floorlog_def)
  have lb0: "0 < lb" using b by (simp add: lb_def floorlog_def)
  obtain ma where ma: "la = Suc ma" using la0 by (cases la) auto
  obtain mb where mb: "lb = Suc mb" using lb0 by (cases lb) auto
  have "2 ^ (la - 1) \<le> nat a \<and> nat a < 2 ^ la"
    unfolding la_def by (rule floorlog_bounds) (use a in simp_all)
  moreover have "la - 1 = ma" by (simp add: ma)
  ultimately have la: "2 ^ ma \<le> nat a" "nat a < 2 ^ la" by (simp_all only:)
  have "2 ^ (lb - 1) \<le> nat b \<and> nat b < 2 ^ lb"
    unfolding lb_def by (rule floorlog_bounds) (use b in simp_all)
  moreover have "lb - 1 = mb" by (simp add: mb)
  ultimately have lb: "2 ^ mb \<le> nat b" "nat b < 2 ^ lb" by (simp_all only:)
  have pa: "pw2 (int la - 1) = 2 ^ ma" using pw2_nat[of ma] by (simp add: ma)
  have pb: "pw2 (int lb - 1) = 2 ^ mb" using pw2_nat[of mb] by (simp add: mb)
  have ra: "pw2 (int la - 1) \<le> of_int a" "of_int a < pw2 (int la)"
  proof -
    have "(of_nat (2 ^ ma) :: rat) \<le> of_nat (nat a)"
      using la(1) by (rule of_nat_mono)
    then show "pw2 (int la - 1) \<le> of_int a" using a by (simp add: pa)
    have "(of_nat (nat a) :: rat) < of_nat (2 ^ la)"
      using la(2) by (simp only: of_nat_less_iff)
    then show "of_int a < pw2 (int la)" using a by (simp add: pw2_nat)
  qed
  have rb: "pw2 (int lb - 1) \<le> of_int b" "of_int b < pw2 (int lb)"
  proof -
    have "(of_nat (2 ^ mb) :: rat) \<le> of_nat (nat b)"
      using lb(1) by (rule of_nat_mono)
    then show "pw2 (int lb - 1) \<le> of_int b" using b by (simp add: pb)
    have "(of_nat (nat b) :: rat) < of_nat (2 ^ lb)"
      using lb(2) by (simp only: of_nat_less_iff)
    then show "of_int b < pw2 (int lb)" using b by (simp add: pw2_nat)
  qed
  define k where "k = int la - int lb"
  have bpos: "(0::rat) < of_int b" using b by simp
  have up: "x < pw2 (k + 1)"
  proof -
    have "of_int a < pw2 (int la)" by (rule ra(2))
    also have "pw2 (int la) = pw2 (k + 1) * pw2 (int lb - 1)"
      by (simp add: k_def pw2_add[symmetric])
    also have "\<dots> \<le> pw2 (k + 1) * of_int b"
      using rb(1) pw2_pos[of "k + 1"] by simp
    finally show ?thesis using bpos by (simp add: x pos_divide_less_eq)
  qed
  have low: "pw2 (k - 1) < x"
  proof -
    have "pw2 (k - 1) * of_int b < pw2 (k - 1) * pw2 (int lb)"
      using rb(2) pw2_pos[of "k - 1"] by simp
    also have "\<dots> = pw2 (int la - 1)"
      by (simp add: k_def pw2_add[symmetric])
    also have "\<dots> \<le> of_int a" by (rule ra(1))
    finally show ?thesis using bpos by (simp add: x pos_less_divide_eq)
  qed
  have il: "ilog2 x = (if pw2 k \<le> x then k else k - 1)"
    by (simp add: ilog2_def q k_def la_def lb_def Let_def)
  show "pw2 (ilog2 x) \<le> x" using low by (simp add: il)
  show "x < pw2 (ilog2 x + 1)" using up by (auto simp: il)
qed

lemma ilog2_unique:
  assumes "pw2 e \<le> x" and "x < pw2 (e + 1)"
  shows "ilog2 x = e"
proof -
  have x: "0 < x" using assms(1) pw2_pos[of e] by simp
  note b = ilog2_bounds[OF x]
  have "\<not> ilog2 x < e"
  proof
    assume "ilog2 x < e"
    then have "pw2 (ilog2 x + 1) \<le> pw2 e" by (intro pw2_mono) simp
    with b(2) assms(1) show False by simp
  qed
  moreover have "\<not> e < ilog2 x"
  proof
    assume "e < ilog2 x"
    then have "pw2 (e + 1) \<le> pw2 (ilog2 x)" by (intro pw2_mono) simp
    with b(1) assms(2) show False by simp
  qed
  ultimately show ?thesis by simp
qed

lemma ilog2_mono:
  assumes "0 < x" and "x \<le> y"
  shows "ilog2 x \<le> ilog2 y"
proof (rule ccontr)
  assume "\<not> ilog2 x \<le> ilog2 y"
  then have "pw2 (ilog2 y + 1) \<le> pw2 (ilog2 x)" by (intro pw2_mono) simp
  moreover have "0 < y" using assms by simp
  ultimately show False
    using ilog2_bounds(1)[OF assms(1)] ilog2_bounds(2)[OF \<open>0 < y\<close>] assms(2) by simp
qed

lemma round_even_of_int: "round_even (of_int k) = k"
  by (simp add: round_even_def)

lemma round_even_numeral: "round_even (numeral k) = numeral k"
  using round_even_of_int[of "numeral k"] by simp

lemma round_even_cases:
  "round_even x = \<lfloor>x\<rfloor> \<or> round_even x = \<lfloor>x\<rfloor> + 1"
  by (simp add: round_even_def Let_def)

lemma round_even_le: "x \<le> of_int k \<Longrightarrow> round_even x \<le> k"
proof -
  assume a: "x \<le> of_int k"
  then have f: "\<lfloor>x\<rfloor> \<le> k" by (simp add: floor_le_iff) 
  show ?thesis
  proof (cases "\<lfloor>x\<rfloor> = k")
    case True
    then have "of_int k \<le> x" by (metis of_int_floor_le)
    with a have "x = of_int k" by simp
    then show ?thesis by (simp add: round_even_of_int)
  next
    case False
    with f have "\<lfloor>x\<rfloor> + 1 \<le> k" by simp
    with round_even_cases[of x] show ?thesis by auto
  qed
qed

lemma round_even_ge: "of_int k \<le> x \<Longrightarrow> k \<le> round_even x"
proof -
  assume "of_int k \<le> x"
  then have "k \<le> \<lfloor>x\<rfloor>" by (simp add: le_floor_iff)
  with round_even_cases[of x] show ?thesis by auto
qed

lemma round_even_mono:
  assumes "x \<le> y"
  shows "round_even x \<le> round_even y"
proof (cases "\<lfloor>x\<rfloor> = \<lfloor>y\<rfloor>")
  case True
  have "x - of_int \<lfloor>x\<rfloor> \<le> y - of_int \<lfloor>y\<rfloor>" using assms True by simp
  then show ?thesis using True by (auto simp: round_even_def Let_def)
next
  case False
  have "\<lfloor>x\<rfloor> \<le> \<lfloor>y\<rfloor>" using assms by (rule floor_mono)
  with False have "\<lfloor>x\<rfloor> + 1 \<le> \<lfloor>y\<rfloor>" by simp
  with round_even_cases[of x] round_even_cases[of y] show ?thesis by auto
qed

lemma round_even_minus: "round_even (- x) = - round_even x"
proof (cases "x = of_int \<lfloor>x\<rfloor>")
  case True
  then obtain k where "x = of_int k" by blast
  then have "- x = of_int (- k)" by simp
  then show ?thesis using \<open>x = of_int k\<close> by (simp only: round_even_of_int)
next
  case False
  define f where "f = \<lfloor>x\<rfloor>"
  have lt2: "x < of_int f + 1" unfolding f_def by linarith
  have "of_int f \<le> x" unfolding f_def by linarith
  moreover from False have "of_int f \<noteq> x" unfolding f_def by (rule not_sym)
  ultimately have lt1: "of_int f < x" by (metis order_less_le)
  note lt = lt1 lt2
  have fl: "\<lfloor>- x\<rfloor> = - f - 1"
    using lt by (intro floor_unique) simp_all
  have ev: "even (- f - 1) \<longleftrightarrow> odd f" by simp
  show ?thesis
    using lt ev unfolding round_even_def Let_def fl f_def[symmetric]
    by (auto simp: field_simps)
qed

lemma round_even_eqI:
  assumes "of_int k - 1 / 2 < x" and "x < of_int k + 1 / 2"
  shows "round_even x = k"
proof (cases "of_int k \<le> x")
  case True
  with assms(2) have "\<lfloor>x\<rfloor> = k" by (intro floor_unique) simp_all
  with assms(2) show ?thesis by (simp add: round_even_def)
next
  case False
  with assms(1) have "\<lfloor>x\<rfloor> = k - 1" by (intro floor_unique) simp_all
  with assms(1) False show ?thesis by (simp add: round_even_def)
qed

lemma fl_round_eq:
  assumes "pw2 e \<le> \<bar>x\<bar>" and "\<bar>x\<bar> < pw2 (e + 1)"
  shows "fl_round p emin x
         = of_int (round_even (x / pw2 (max e emin - int p + 1))) * pw2 (max e emin - int p + 1)"
proof -
  have "x \<noteq> 0" using assms(1) pw2_pos[of e] by auto
  moreover have "ilog2 \<bar>x\<bar> = e" using assms by (rule ilog2_unique)
  ultimately show ?thesis by (simp add: fl_round_def Let_def)
qed

lemma fl_round_eval:
  assumes "pw2 e \<le> \<bar>x\<bar>" and "\<bar>x\<bar> < pw2 (e + 1)" and "emin \<le> e"
    and "of_int k - 1 / 2 < x / pw2 (e - int p + 1)"
    and "x / pw2 (e - int p + 1) < of_int k + 1 / 2"
  shows "fl_round p emin x = of_int k * pw2 (e - int p + 1)"
proof -
  have "max e emin = e" using assms(3) by simp
  with fl_round_eq[OF assms(1,2), of p emin] round_even_eqI[OF assms(4,5)]
  show ?thesis by simp
qed

lemma fl_round_minus: "fl_round p emin (- x) = - fl_round p emin x"
  by (simp add: fl_round_def Let_def round_even_minus)

lemma fl_round_zero: "fl_round p emin 0 = 0"
  by (simp add: fl_round_def)

lemma fl_round_pos_ge:
  assumes "0 < x"
  shows "0 \<le> fl_round p emin x"
proof -
  define u where "u = pw2 (max (ilog2 x) emin - int p + 1)"
  have u: "0 < u" by (simp add: u_def pw2_pos)
  have "0 \<le> x / u" using assms u by simp
  then have "of_int 0 \<le> x / u" by simp
  then have "0 \<le> round_even (x / u)" by (rule round_even_ge)
  then show ?thesis using assms u by (simp add: fl_round_def Let_def u_def[symmetric])
qed

lemma fl_round_mono_pos:
  assumes "0 < x" and "x \<le> y" and "0 < p"
  shows "fl_round p emin x \<le> fl_round p emin y"
proof -
  have y: "0 < y" using assms by simp
  define ex where "ex = max (ilog2 x) emin"
  define ey where "ey = max (ilog2 y) emin"
  define ux where "ux = pw2 (ex - int p + 1)"
  define uy where "uy = pw2 (ey - int p + 1)"
  have fx: "fl_round p emin x = of_int (round_even (x / ux)) * ux"
    using assms(1) by (simp add: fl_round_def Let_def ex_def ux_def)
  have fy: "fl_round p emin y = of_int (round_even (y / uy)) * uy"
    using y by (simp add: fl_round_def Let_def ey_def uy_def)
  have ux: "0 < ux" and uy: "0 < uy" by (simp_all add: ux_def uy_def pw2_pos)
  have le: "ex \<le> ey"
    using ilog2_mono[OF assms(1,2)] by (simp add: ex_def ey_def)
  show ?thesis
  proof (cases "ex = ey")
    case True
    then have "ux = uy" by (simp add: ux_def uy_def)
    moreover have "x / uy \<le> y / uy" using assms(2) uy by (simp add: divide_right_mono)
    then have "round_even (x / uy) \<le> round_even (y / uy)" by (rule round_even_mono)
    ultimately show ?thesis using uy by (simp add: fx fy)
  next
    case False
    with le have lt: "ex < ey" by simp
    then have ey: "ey = ilog2 y" by (auto simp: ex_def ey_def)
    have p2: "pw2 (int p) = of_int (2 ^ p)" by (simp add: pw2_nat)
    have "x < pw2 (ilog2 x + 1)" using assms(1) by (rule ilog2_bounds)
    also have "\<dots> \<le> pw2 (ex + 1)" by (intro pw2_mono) (simp add: ex_def)
    also have "\<dots> = pw2 (int p) * ux" by (simp add: ux_def pw2_add[symmetric])
    finally have "x / ux \<le> of_int (2 ^ p)" using ux by (simp add: pos_divide_le_eq p2)
    then have "round_even (x / ux) \<le> 2 ^ p" by (rule round_even_le)
    then have "of_int (round_even (x / ux)) \<le> (of_int (2 ^ p) :: rat)"
      by (simp only: of_int_le_iff)
    then have "fl_round p emin x \<le> pw2 (int p) * ux"
      using ux by (simp add: fx p2)
    also have "\<dots> = pw2 (ex + 1)" by (simp add: ux_def pw2_add[symmetric])
    also have "\<dots> \<le> pw2 ey" using lt by (intro pw2_mono) simp
    finally have a: "fl_round p emin x \<le> pw2 ey" .
    obtain q where q: "p = Suc q" using assms(3) by (cases p) auto
    have q2: "pw2 (int q) = of_int (2 ^ q)" by (simp add: pw2_nat)
    have "pw2 (int q) * uy = pw2 ey" by (simp add: uy_def q pw2_add[symmetric])
    moreover have "pw2 ey \<le> y" unfolding ey using y by (rule ilog2_bounds)
    ultimately have "of_int (2 ^ q) \<le> y / uy" using uy by (simp add: pos_le_divide_eq q2)
    then have "2 ^ q \<le> round_even (y / uy)" by (rule round_even_ge)
    then have "(of_int (2 ^ q) :: rat) \<le> of_int (round_even (y / uy))"
      by (simp only: of_int_le_iff)
    then have "pw2 (int q) * uy \<le> fl_round p emin y"
      using uy by (simp add: fy q2)
    with \<open>pw2 (int q) * uy = pw2 ey\<close> have "pw2 ey \<le> fl_round p emin y" by simp
    with a show ?thesis by simp
  qed
qed

lemma fl_round_mono:
  assumes "x \<le> y" and "0 < p"
  shows "fl_round p emin x \<le> fl_round p emin y"
proof -
  consider "0 < x" | "x = 0" | "x < 0" "y < 0" | "x < 0" "y = 0" | "x < 0" "0 < y"
    by linarith
  then show ?thesis
  proof cases
    case 1
    then show ?thesis using assms by (intro fl_round_mono_pos)
  next
    case 2
    show ?thesis
    proof (cases "y = 0")
      case True
      with 2 show ?thesis by simp
    next
      case False
      with 2 assms have "0 < y" by simp
      then have "0 \<le> fl_round p emin y" by (rule fl_round_pos_ge)
      with 2 show ?thesis by (simp add: fl_round_zero)
    qed
  next
    case 3
    then have "0 < - y" "- y \<le> - x" using assms by simp_all
    then have "fl_round p emin (- y) \<le> fl_round p emin (- x)"
      using assms(2) by (intro fl_round_mono_pos)
    then show ?thesis by (simp add: fl_round_minus)
  next
    case 4
    then have "0 < - x" by simp
    then have "0 \<le> fl_round p emin (- x)" by (rule fl_round_pos_ge)
    with 4 show ?thesis by (simp add: fl_round_minus fl_round_zero)
  next
    case 5
    then have "0 < - x" by simp
    then have "0 \<le> fl_round p emin (- x)" by (rule fl_round_pos_ge)
    moreover have "0 \<le> fl_round p emin y" using 5(2) by (rule fl_round_pos_ge)
    ultimately show ?thesis by (simp add: fl_round_minus)
  qed
qed

lemma fl_round_exact:
  assumes "\<bar>m\<bar> < 2 ^ p" and "emin - int p + 1 \<le> j"
  shows "fl_round p emin (of_int m * pw2 j) = of_int m * pw2 j"
proof (cases "m = 0")
  case True
  then show ?thesis by (simp add: fl_round_zero)
next
  case False
  define x where "x = of_int m * pw2 j"
  have x0: "x \<noteq> 0" using False pw2_pos[of j] by (simp add: x_def)
  have ax: "\<bar>x\<bar> = of_int \<bar>m\<bar> * pw2 j"
    using pw2_pos[of j] by (simp add: x_def abs_mult)
  have "(of_int \<bar>m\<bar> :: rat) < of_int (2 ^ p)" using assms(1) by (simp only: of_int_less_iff)
  then have "\<bar>x\<bar> < pw2 (int p) * pw2 j"
    using pw2_pos[of j] by (simp add: ax pw2_nat)
  then have "\<bar>x\<bar> < pw2 (int p + j)" by (simp add: pw2_add)
  moreover have "pw2 (ilog2 \<bar>x\<bar>) \<le> \<bar>x\<bar>" using x0 by (intro ilog2_bounds) simp
  ultimately have "pw2 (ilog2 \<bar>x\<bar>) < pw2 (int p + j)" by simp
  then have il: "ilog2 \<bar>x\<bar> < int p + j"
    using pw2_mono[of "int p + j" "ilog2 \<bar>x\<bar>"] by (cases "ilog2 \<bar>x\<bar> < int p + j") auto
  define e where "e = max (ilog2 \<bar>x\<bar>) emin - int p + 1"
  have ej: "e \<le> j" using il assms(2) by (simp add: e_def)
  define n where "n = nat (j - e)"
  have "pw2 j = pw2 (int n) * pw2 e" using ej by (simp add: n_def pw2_add[symmetric])
  then have "x / pw2 e = of_int (m * 2 ^ n)"
    using pw2_pos[of e] by (simp add: x_def pw2_nat)
  then have "round_even (x / pw2 e) = m * 2 ^ n" by (simp only: round_even_of_int)
  moreover have "fl_round p emin x = of_int (round_even (x / pw2 e)) * pw2 e"
    using x0 by (simp add: fl_round_def Let_def e_def)
  ultimately have "fl_round p emin x = of_int (m * 2 ^ n) * pw2 e" by simp
  also have "\<dots> = of_int m * (pw2 (int n) * pw2 e)" by (simp add: pw2_nat)
  also have "\<dots> = x" using \<open>pw2 j = pw2 (int n) * pw2 e\<close> by (simp add: x_def)
  finally show ?thesis by (simp add: x_def)
qed

lemma fl_round_of_int:
  assumes "\<bar>m\<bar> < 2 ^ p" and "emin - int p + 1 \<le> 0"
  shows "fl_round p emin (of_int m) = of_int m"
  using fl_round_exact[OF assms] by (simp add: pw2_def)

lemma float32_of_int8: "- 128 \<le> p \<Longrightarrow> p \<le> 127 \<Longrightarrow> float32 (of_int p) = of_int p"
  unfolding float32_def by (rule fl_round_of_int) simp_all

lemma float32_half: "float32 (1 / 2) = 1 / 2"
  using fl_round_exact[of 1 24 "- 126" "- 1"] by (simp add: float32_def pw2_def)

lemma float32_127: "float32 (127 / 100) = 2663383 / 2097152"
proof -
  have "fl_round 24 (- 126) (127 / 100) = of_int 10653532 * pw2 (0 - int 24 + 1)"
    by (rule fl_round_eval) (simp_all add: pw2_def)
  then show ?thesis by (simp add: float32_def pw2_def)
qed

lemma float32_m128: "float32 (- 128 / 100) = - (5368709 / 4194304)"
proof -
  have "fl_round 24 (- 126) (- 128 / 100) = of_int (- 10737418) * pw2 (0 - int 24 + 1)"
    by (rule fl_round_eval) (simp_all add: pw2_def)
  then show ?thesis by (simp add: float32_def pw2_def)
qed

lemma float64_exact:
  "\<bar>m\<bar> < 2 ^ 53 \<Longrightarrow> - 1074 \<le> j \<Longrightarrow> float64 (of_int m * pw2 j) = of_int m * pw2 j"
  unfolding float64_def by (rule fl_round_exact) simp_all

lemma float64_of_int: "\<bar>m\<bar> < 2 ^ 53 \<Longrightarrow> float64 (of_int m) = of_int m"
  unfolding float64_def by (rule fl_round_of_int) simp_all

lemma float64_mono: "x \<le> y \<Longrightarrow> float64 x \<le> float64 y"
  unfolding float64_def by (rule fl_round_mono) simp_all

lemma float64_zero: "float64 0 = 0"
  by (simp add: float64_def fl_round_zero)

lemma trunc_float_sum:
  fixes q r :: int and U :: rat
  assumes q: "0 \<le> q" and qj: "(q + 1) * 2 ^ j \<le> 2 ^ 53"
    and r: "0 \<le> r" "r < 2 ^ 53" and U: "0 < U"
    and frac: "of_int r / U \<le> 1 - 1 / 2 ^ j"
  shows "trunc (float64 (float64 (of_int q) + float64 (float64 (of_int r) / U))) = q"
proof -
  have j1: "(1::int) \<le> 2 ^ j" by simp
  have "q + 1 \<le> (q + 1) * 2 ^ j" using q j1 by (simp add: mult_le_cancel_left1)
  with qj have q53: "q < 2 ^ 53" by linarith
  have "(2::int) ^ j \<le> (q + 1) * 2 ^ j" using q by (simp add: mult_le_cancel_right1)
  from this qj have j53: "(2::int) ^ j \<le> 2 ^ 53" by (rule order_trans)
  have jle: "j \<le> 53"
    by (rule power_le_imp_le_exp[of "2::int"]) (use j53 in simp_all)
  have fq: "float64 (of_int q) = of_int q" using q q53 by (intro float64_of_int) simp
  have fr: "float64 (of_int r) = of_int r" using r by (intro float64_of_int) simp
  define y where "y = float64 (of_int r / U)"
  have pj: "pw2 (- int j) = 1 / 2 ^ j" by (simp add: pw2_def)
  have y0: "0 \<le> y"
  proof -
    have "(0::rat) \<le> of_int r / U" using r(1) U by simp
    then have "float64 0 \<le> y" unfolding y_def by (rule float64_mono)
    then show ?thesis by (simp add: float64_zero)
  qed
  have y1: "y \<le> 1 - 1 / 2 ^ j"
  proof -
    have "y \<le> float64 (1 - 1 / 2 ^ j)" unfolding y_def using frac by (rule float64_mono)
    also have "(1::rat) - 1 / 2 ^ j = of_int (2 ^ j - 1) * pw2 (- int j)"
      by (simp add: pj field_simps)
    also have "float64 \<dots> = of_int (2 ^ j - 1) * pw2 (- int j)"
      using j53 jle by (intro float64_exact) simp_all
    also have "\<dots> = 1 - 1 / 2 ^ j" by (simp add: pj field_simps)
    finally show ?thesis .
  qed
  define x where "x = of_int q + y"
  have lo: "of_int q \<le> float64 x"
  proof -
    have "of_int q \<le> x" using y0 by (simp add: x_def)
    then have "float64 (of_int q) \<le> float64 x" by (rule float64_mono)
    then show ?thesis by (simp add: fq)
  qed
  have hi: "float64 x \<le> of_int q + 1 - 1 / 2 ^ j"
  proof -
    have "x \<le> of_int q + 1 - 1 / 2 ^ j" using y1 by (simp add: x_def)
    then have "float64 x \<le> float64 (of_int q + 1 - 1 / 2 ^ j)" by (rule float64_mono)
    also have "(of_int q :: rat) + 1 - 1 / 2 ^ j = of_int ((q + 1) * 2 ^ j - 1) * pw2 (- int j)"
      by (simp add: pj field_simps)
    also have "float64 \<dots> = of_int ((q + 1) * 2 ^ j - 1) * pw2 (- int j)"
      using qj q jle by (intro float64_exact) simp_all
    also have "\<dots> = of_int q + 1 - 1 / 2 ^ j" by (simp add: pj field_simps)
    finally show ?thesis .
  qed
  have "(0::rat) < 1 / 2 ^ j" by simp
  with hi have lt: "float64 x < of_int q + 1" by linarith
  have nn: "0 \<le> float64 x" using lo q by (meson of_int_0_le_iff order_trans)
  have "\<lfloor>float64 x\<rfloor> = q" using lo lt by (intro floor_unique) simp_all
  then show ?thesis using nn by (simp add: trunc_def fq fr x_def y_def)
qed

section \<open>Decimal digits\<close>

lemma foldl_decimal_step_ge: "n \<le> foldl decimal_step n ds"
proof (induction ds arbitrary: n)
  case Nil
  show ?case by simp
next
  case (Cons c ds)
  have "n \<le> decimal_step n c" by (simp add: decimal_step_def)
  also have "\<dots> \<le> foldl decimal_step (decimal_step n c) ds" by (rule Cons.IH)
  finally show ?case by simp
qed

lemma decimal_step_mono: "x \<le> y \<Longrightarrow> foldl decimal_step x ds \<le> foldl decimal_step y ds"
  by (induction ds arbitrary: x y) (simp_all add: decimal_step_def)

lemma decimal_value_snoc: "decimal_value (xs @ [c]) = decimal_value xs * 10 + digitVal c"
  by (simp add: decimal_value_def decimal_step_def)

lemma decimal_value_zeros: "foldl decimal_step 0 (replicate k (CHR ''0'')) = 0"
  by (induction k) (simp_all add: decimal_step_def digitVal_def)

lemma digit_char:
  assumes "k < 10"
  shows "isDigit (digits ! k)" and "digitVal (digits ! k) = k"
proof -
  from assms have "k = 0 \<or> k = 1 \<or> k = 2 \<or> k = 3 \<or> k = 4 \<or> k = 5 \<or> k = 6
    \<or> k = 7 \<or> k = 8 \<or> k = 9" by arith
  then have "isDigit (digits ! k) \<and> digitVal (digits ! k) = k"
    by (elim disjE) (simp_all add: digits_def isDigit_def digitVal_def)
  then show "isDigit (digits ! k)" and "digitVal (digits ! k) = k" by simp_all
qed

lemma itoa_props: "itoa n \<noteq> [] \<and> list_all isDigit (itoa n) \<and> decimal_value (itoa n) = n"
proof (induction n rule: itoa.induct)
  case (1 n)
  show ?case
  proof (cases "n < 10")
    case True
    then have "itoa n = [digits ! n]" by (subst itoa.simps) simp
    with digit_char[OF True] show ?thesis
      by (simp add: decimal_value_def decimal_step_def)
  next
    case False
    have m: "n mod 10 < 10" by simp
    from False have e: "itoa n = itoa (n div 10) @ [digits ! (n mod 10)]"
      by (subst itoa.simps) simp
    from "1.IH"[OF False] digit_char[OF m] show ?thesis
      by (simp add: e decimal_value_snoc)
  qed
qed

lemma pad0_props:
  assumes "s \<noteq> []" and "list_all isDigit s"
  shows "pad0 w s \<noteq> []" and "list_all isDigit (pad0 w s)"
    and "decimal_value (pad0 w s) = decimal_value s"
proof -
  have z: "isDigit (CHR ''0'')" by (simp add: isDigit_def)
  show "pad0 w s \<noteq> []" using assms(1) by (simp add: pad0_def)
  show "list_all isDigit (pad0 w s)" using assms(2) z by (auto simp: pad0_def list_all_iff)
  show "decimal_value (pad0 w s) = decimal_value s"
    by (simp add: pad0_def decimal_value_def decimal_value_zeros)
qed

lemma fmt_0d_props:
  assumes "0 \<le> n"
  shows "fmt_0d w n \<noteq> []" and "list_all isDigit (fmt_0d w n)"
    and "decimal_value (fmt_0d w n) = nat n"
proof -
  have f: "fmt_0d w n = pad0 w (itoa (nat n))" using assms by (simp add: fmt_0d_def)
  note i = itoa_props[of "nat n"]
  show "fmt_0d w n \<noteq> []" unfolding f using i by (intro pad0_props) simp_all
  show "list_all isDigit (fmt_0d w n)" unfolding f using i by (intro pad0_props) simp_all
  show "decimal_value (fmt_0d w n) = nat n"
    unfolding f using i pad0_props(3)[of "itoa (nat n)" w] by simp
qed

lemma replicate_numeral_eval: "replicate (numeral k) x = x # replicate (pred_numeral k) x"
  by (simp add: numeral_eq_Suc)

section \<open>Facts about \<open>strconv.ParseInt\<close> at base 10 and 8 bits\<close>

lemma ParseUint_loop_step_digit:
  assumes "isDigit c" and "n \<le> 255"
  shows "ParseUint_loop 10 255 n (c # s)
         = (if 255 < decimal_step n c then (255, Some ErrRange)
            else ParseUint_loop 10 255 (decimal_step n c) s)"
proof -
  have b: "48 \<le> (of_char c :: nat)" "(of_char c :: nat) \<le> 57"
    using assms(1) by (simp_all add: isDigit_def)
  have dv: "(of_char c :: nat) - 48 = digitVal c" by (simp add: digitVal_def)
  have d: "digitVal c < 10" using b by (simp add: digitVal_def)
  have "\<not> (1844674407370955162::nat) \<le> n" using assms(2) by simp
  moreover have "n * 10 + digitVal c < 18446744073709551616"
    using assms(2) d by simp
  ultimately show ?thesis
    using b d by (simp add: Let_def decimal_step_def dv)
qed

lemma ParseUint_loop_step_other:
  assumes "\<not> isDigit c"
  shows "ParseUint_loop 10 255 n (c # s) = (0, Some ErrSyntax)"
proof -
  have b: "(48 \<le> (of_char c :: nat) \<and> (of_char c :: nat) \<le> 57) = False"
    using assms by (simp add: isDigit_def)
  have le: "((10::nat) \<le> lower (of_char c) - 97 + 10) = True" by arith
  show ?thesis
    by (simp only: ParseUint_loop.simps Let_def b le simp_thms if_True if_False if_cancel)
qed

lemma ParseUint_loop_ok:
  "n \<le> 255 \<Longrightarrow> list_all isDigit ds \<Longrightarrow> foldl decimal_step n ds \<le> 255
   \<Longrightarrow> ParseUint_loop 10 255 n ds = (foldl decimal_step n ds, None)"
proof (induction ds arbitrary: n)
  case Nil
  show ?case by simp
next
  case (Cons c ds)
  have c: "isDigit c" and ds: "list_all isDigit ds" using Cons.prems(2) by simp_all
  have f: "foldl decimal_step (decimal_step n c) ds \<le> 255" using Cons.prems(3) by simp
  have "decimal_step n c \<le> foldl decimal_step (decimal_step n c) ds"
    by (rule foldl_decimal_step_ge)
  with f have le: "decimal_step n c \<le> 255" by simp
  from Cons.IH[OF le ds f] le show ?case
    by (simp add: ParseUint_loop_step_digit[OF c Cons.prems(1)] del: ParseUint_loop.simps)
qed

lemma ParseUint_loop_fail:
  "n \<le> 255 \<Longrightarrow> \<not> (list_all isDigit ds \<and> foldl decimal_step n ds \<le> 255)
   \<Longrightarrow> ParseUint_loop 10 255 n ds = (0, Some ErrSyntax)
       \<or> ParseUint_loop 10 255 n ds = (255, Some ErrRange)"
proof (induction ds arbitrary: n)
  case Nil
  then show ?case by simp
next
  case (Cons c ds)
  show ?case
  proof (cases "isDigit c")
    case False
    then show ?thesis by (simp add: ParseUint_loop_step_other del: ParseUint_loop.simps)
  next
    case True
    show ?thesis
    proof (cases "255 < decimal_step n c")
      case True
      with \<open>isDigit c\<close> Cons.prems(1) show ?thesis
        by (simp add: ParseUint_loop_step_digit del: ParseUint_loop.simps)
    next
      case False
      then have le: "decimal_step n c \<le> 255" by simp
      have "\<not> (list_all isDigit ds \<and> foldl decimal_step (decimal_step n c) ds \<le> 255)"
        using Cons.prems(2) True by simp
      from Cons.IH[OF le this] False True Cons.prems(1) show ?thesis
        by (simp add: ParseUint_loop_step_digit del: ParseUint_loop.simps)
    qed
  qed
qed

lemma ParseUint_8_ok:
  assumes "ds \<noteq> []" and "list_all isDigit ds" and "decimal_value ds \<le> 255"
  shows "ParseUint ds 10 8 = (decimal_value ds, None)"
proof -
  have "ParseUint_loop 10 255 0 ds = (foldl decimal_step 0 ds, None)"
    using assms(2,3) unfolding decimal_value_def by (intro ParseUint_loop_ok) simp_all
  then show ?thesis using assms(1) by (simp add: ParseUint_def decimal_value_def)
qed

lemma ParseUint_8_fail:
  assumes "\<not> (ds \<noteq> [] \<and> list_all isDigit ds \<and> decimal_value ds \<le> 255)"
  shows "ParseUint ds 10 8 = (0, Some ErrSyntax) \<or> ParseUint ds 10 8 = (255, Some ErrRange)"
proof (cases "ds = []")
  case True
  then show ?thesis by (simp add: ParseUint_def)
next
  case False
  with assms have "\<not> (list_all isDigit ds \<and> foldl decimal_step 0 ds \<le> 255)"
    by (simp add: decimal_value_def)
  then have "ParseUint_loop 10 255 0 ds = (0, Some ErrSyntax)
       \<or> ParseUint_loop 10 255 0 ds = (255, Some ErrRange)"
    by (intro ParseUint_loop_fail) simp_all
  then show ?thesis using False by (simp add: ParseUint_def)
qed

lemma ParseInt_post:
  "(case ParseUint ds 10 8 of (un, err) \<Rightarrow>
      if err = Some ErrSyntax then Inl (NumError ''ParseInt'' s0 ErrSyntax)
      else if \<not> neg \<and> 128 \<le> un then Inl (NumError ''ParseInt'' s0 ErrRange)
      else if neg \<and> 128 < un then Inl (NumError ''ParseInt'' s0 ErrRange)
      else Inr (if neg then - int un else int un)) = Inr p
   \<longleftrightarrow> (ds \<noteq> [] \<and> list_all isDigit ds
        \<and> (if neg then decimal_value ds \<le> 128 else decimal_value ds \<le> 127))
       \<and> p = (if neg then - int (decimal_value ds) else int (decimal_value ds))"
proof (cases "ds \<noteq> [] \<and> list_all isDigit ds \<and> decimal_value ds \<le> 255")
  case True
  then have "ParseUint ds 10 8 = (decimal_value ds, None)" by (intro ParseUint_8_ok) simp_all
  with True show ?thesis by auto
next
  case False
  from ParseUint_8_fail[OF this] False show ?thesis by auto
qed

lemma ParseInt_8_Inr: "ParseInt s 10 8 = Inr p \<longleftrightarrow> is_int8_text s \<and> p = int8_value s"
proof (cases s)
  case Nil
  then show ?thesis by (simp add: ParseInt_def is_int8_text_def)
next
  case (Cons c r)
  consider "c = CHR ''-''" | "c = CHR ''+''" | "c \<noteq> CHR ''-''" "c \<noteq> CHR ''+''" by blast
  then show ?thesis
  proof cases
    case 1
    show ?thesis
      unfolding Cons 1
      using ParseInt_post[where ds = r and neg = True and p = p and ?s0.0 = "CHR ''-'' # r"]
      by (simp add: ParseInt_def Let_def is_int8_text_def int8_value_def)
  next
    case 2
    show ?thesis
      unfolding Cons 2
      using ParseInt_post[where ds = r and neg = False and p = p and ?s0.0 = "CHR ''+'' # r"]
      by (simp add: ParseInt_def Let_def is_int8_text_def int8_value_def)
  next
    case 3
    show ?thesis
      unfolding Cons
      using 3 ParseInt_post[where ds = "c # r" and neg = False and p = p and ?s0.0 = "c # r"]
      by (simp add: ParseInt_def Let_def is_int8_text_def int8_value_def)
  qed
qed

lemma ParseInt_8_Inl:
  "ParseInt s 10 8 = Inl e \<Longrightarrow> \<exists>k. e = NumError ''ParseInt'' s k"
  by (auto simp: ParseInt_def Let_def split: if_splits prod.splits)

lemma ParseInt_8_fails_iff: "(\<exists>e. ParseInt s 10 8 = Inl e) \<longleftrightarrow> \<not> is_int8_text s"
proof -
  have "(\<exists>e. ParseInt s 10 8 = Inl e) \<longleftrightarrow> \<not> (\<exists>p. ParseInt s 10 8 = Inr p)"
    by (cases "ParseInt s 10 8") auto
  then show ?thesis by (simp add: ParseInt_8_Inr)
qed

lemma int8_value_range:
  assumes "is_int8_text s"
  shows "- 128 \<le> int8_value s" and "int8_value s \<le> 127"
  using assms by (auto simp: is_int8_text_def int8_value_def Let_def split: if_splits)

section \<open>The scanning loop of the duration decoder\<close>

lemma seps_Nil: "seps [] = 0"
  by (simp add: seps_def)

lemma seps_Cons: "seps (b # bs) = (if isSep b then Suc (seps bs) else seps bs)"
  by (simp add: seps_def)

lemma UnmarshalText_loop_Inl:
  "cp \<le> 3 \<Longrightarrow> 3 < cp + seps bs \<Longrightarrow>
   UnmarshalText_loop data bs sb cp = Inl (errorString (''invalid duration format: '' @ data))"
proof (induction bs arbitrary: sb cp)
  case Nil
  then show ?case by (simp add: seps_Nil)
next
  case (Cons b bs)
  show ?case
  proof (cases "isSep b")
    case True
    show ?thesis
    proof (cases "cp = 3")
      case True
      with \<open>isSep b\<close> show ?thesis by simp
    next
      case False
      with Cons.prems True have "cp + 1 \<le> 3" "3 < (cp + 1) + seps bs"
        by (simp_all add: seps_Cons)
      from Cons.IH[OF this] True False show ?thesis by simp
    qed
  next
    case False
    with Cons.prems have "3 < cp + seps bs" by (simp add: seps_Cons)
    from Cons.IH[OF Cons.prems(1) this] False show ?thesis by simp
  qed
qed

lemma UnmarshalText_loop_Inr:
  "cp + seps bs \<le> 3 \<Longrightarrow> \<exists>sb'. UnmarshalText_loop data bs sb cp = Inr (sb', cp + seps bs)"
proof (induction bs arbitrary: sb cp)
  case Nil
  then show ?case by (simp add: seps_Nil)
next
  case (Cons b bs)
  show ?case
  proof (cases "isSep b")
    case True
    with Cons.prems have "(cp + 1) + seps bs \<le> 3" "cp \<noteq> 3"
      by (simp_all add: seps_Cons)
    from Cons.IH[OF this(1)] this(2) True show ?thesis by (simp add: seps_Cons)
  next
    case False
    with Cons.prems have "cp + seps bs \<le> 3" by (simp add: seps_Cons)
    from Cons.IH[OF this] False show ?thesis by (simp add: seps_Cons)
  qed
qed

lemma Duration_UnmarshalText_error_keeps:
  "Duration_UnmarshalText d data = (d', Some e) \<Longrightarrow> d' = d"
  by (auto simp: Duration_UnmarshalText_def Let_def split: sum.splits prod.splits if_splits)

lemma isSep_not_isDigit: "isSep c \<Longrightarrow> \<not> isDigit c"
  by (auto simp: isSep_def isDigit_def)

lemma isDigit_not_isSep: "isDigit c \<Longrightarrow> \<not> isSep c"
  by (auto simp: isSep_def isDigit_def)

lemma fields_not_Nil: "fields bs \<noteq> []"
  by (induction bs) (auto split: list.splits)

lemma length_fields: "length (fields bs) = Suc (seps bs)"
  by (induction bs) (auto simp: seps_Nil seps_Cons split: list.splits)

lemma seps_fields: "seps bs = length (fields bs) - 1"
  by (simp add: length_fields)

lemma fields_digits: "f \<in> set (fields bs) \<Longrightarrow> list_all isDigit f"
proof (induction bs arbitrary: f)
  case Nil
  then show ?case by simp
next
  case (Cons b bs)
  then show ?case
    by (cases "fields bs") (auto split: if_splits)
qed

lemma fields_digits_only: "list_all isDigit f \<Longrightarrow> fields f = [f]"
  by (induction f) (simp_all add: isDigit_not_isSep)

lemma fields_digits_sep:
  "list_all isDigit f \<Longrightarrow> isSep c \<Longrightarrow> fields (f @ c # rest) = f # fields rest"
  by (induction f) (simp_all add: isDigit_not_isSep)

lemma seps_digits_sep:
  "list_all isDigit f \<Longrightarrow> isSep c \<Longrightarrow> seps (f @ c # rest) = Suc (seps rest)"
  using length_fields[of "f @ c # rest"] length_fields[of rest]
  by (simp add: fields_digits_sep)

lemma seps_digits_only: "list_all isDigit f \<Longrightarrow> seps f = 0"
  using length_fields[of f] by (simp add: fields_digits_only)

lemma skeleton_Cons:
  "skeleton (b # bs) = (if isSep b then CHR '':'' # skeleton bs
                        else if isDigit b then b # skeleton bs else skeleton bs)"
  by (simp add: skeleton_def)

lemma fields_skeleton: "fields (skeleton bs) = fields bs"
proof (induction bs)
  case Nil
  show ?case by (simp add: skeleton_def)
next
  case (Cons b bs)
  have s: "isSep (CHR '':'')" by (simp add: isSep_def)
  show ?case using Cons s by (simp add: skeleton_Cons isSep_not_isDigit)
qed

lemma skeleton_same:
  assumes "skeleton a = skeleton b"
  shows "fields a = fields b" and "seps a = seps b" and "duration_string a = duration_string b"
proof -
  show f: "fields a = fields b"
    using assms fields_skeleton[of a] fields_skeleton[of b] by simp
  then show "seps a = seps b" by (simp add: seps_fields)
  from f show "duration_string a = duration_string b" by (simp add: duration_string_def)
qed

lemma UnmarshalText_loop_buffer:
  "cp + seps bs \<le> 3 \<Longrightarrow>
   \<exists>sb'. UnmarshalText_loop data bs sb cp = Inr (sb', cp + seps bs)
        \<and> sb' @ formatStrings ! (cp + seps bs)
            = sb @ with_units (fields bs) (drop cp formatStrings)"
proof (induction bs arbitrary: sb cp)
  case Nil
  then have "cp < length formatStrings" by (simp add: formatStrings_def)
  then have "drop cp formatStrings = formatStrings ! cp # drop (Suc cp) formatStrings"
    by (simp add: Cons_nth_drop_Suc)
  then show ?case by (simp add: seps_Nil)
next
  case (Cons b bs)
  show ?case
  proof (cases "isSep b")
    case True
    with Cons.prems have le: "(cp + 1) + seps bs \<le> 3" and ne: "cp \<noteq> 3"
      by (simp_all add: seps_Cons)
    then have "cp < length formatStrings" by (simp add: formatStrings_def)
    then have d: "drop cp formatStrings = formatStrings ! cp # drop (Suc cp) formatStrings"
      by (simp add: Cons_nth_drop_Suc)
    from Cons.IH[OF le, of "sb @ formatStrings ! cp"] True ne show ?thesis
      by (simp add: seps_Cons d)
  next
    case False
    with Cons.prems have le: "cp + seps bs \<le> 3" by (simp add: seps_Cons)
    then have "cp < length formatStrings" by (simp add: formatStrings_def)
    then have d: "drop cp formatStrings = formatStrings ! cp # drop (Suc cp) formatStrings"
      by (simp add: Cons_nth_drop_Suc)
    obtain f fs where ff: "fields bs = f # fs"
      using fields_not_Nil[of bs] by (cases "fields bs") auto
    show ?thesis
    proof (cases "isDigit b")
      case True
      from Cons.IH[OF le, of "sb @ [b]"] True False show ?thesis
        by (simp add: seps_Cons ff d)
    next
      case nd: False
      from Cons.IH[OF le, of sb] nd False show ?thesis
        by (simp add: seps_Cons)
    qed
  qed
qed

lemma Duration_UnmarshalText_parse:
  assumes "2 \<le> seps data" and "seps data \<le> 3"
  shows "Duration_UnmarshalText d data
         = (case ParseDuration (duration_string data) of
              Inl err \<Rightarrow> (d, Some (wrapError ''error parsing duration: '' err))
            | Inr dur \<Rightarrow> (dur, None))"
proof -
  from assms(2) have "0 + seps data \<le> 3" by simp
  from UnmarshalText_loop_buffer[OF this, of data "[]"] obtain sb'
    where l: "UnmarshalText_loop data data [] 0 = Inr (sb', seps data)"
      and b: "sb' @ formatStrings ! seps data = duration_string data"
    by (auto simp: duration_string_def)
  show ?thesis using assms(1) by (simp add: Duration_UnmarshalText_def l b)
qed

lemma Duration_UnmarshalText_count:
  assumes "seps data < 2 \<or> 3 < seps data"
  shows "Duration_UnmarshalText d data
         = (d, Some (errorString (''invalid duration format: '' @ data)))"
proof (cases "3 < seps data")
  case True
  then have "UnmarshalText_loop data data [] 0
      = Inl (errorString (''invalid duration format: '' @ data))"
    by (intro UnmarshalText_loop_Inl) simp_all
  then show ?thesis by (simp add: Duration_UnmarshalText_def)
next
  case False
  then have "0 + seps data \<le> 3" by simp
  from UnmarshalText_loop_Inr[OF this] obtain sb
    where "UnmarshalText_loop data data [] 0 = Inr (sb, seps data)" by auto
  with False assms show ?thesis by (simp add: Duration_UnmarshalText_def)
qed

lemma fields_shape:
  assumes "2 \<le> seps data" and "seps data \<le> 3"
  obtains f0 f1 f2 where "seps data = 2" and "fields data = [f0, f1, f2]"
  | f0 f1 f2 f3 where "seps data = 3" and "fields data = [f0, f1, f2, f3]"
proof -
  have l: "length (fields data) = Suc (seps data)" by (rule length_fields)
  consider "seps data = 2" | "seps data = 3" using assms by linarith
  then show ?thesis
  proof cases
    case 1
    with l have "length (fields data) = 3" by simp
    then obtain f0 f1 f2 where "fields data = [f0, f1, f2]"
      by (auto simp: length_Suc_conv numeral_3_eq_3)
    with 1 that(1) show ?thesis by blast
  next
    case 2
    with l have "length (fields data) = 4" by simp
    then obtain f0 f1 f2 f3 where "fields data = [f0, f1, f2, f3]"
      by (auto simp: length_Suc_conv numeral_eq_Suc)
    with 2 that(2) show ?thesis by blast
  qed
qed

section \<open>Facts about \<open>time.ParseDuration\<close>\<close>

declare ParseDuration_loop.simps [simp del]

lemma leadingInt_loop_exact:
  assumes "list_all isDigit ds" and "rest = [] \<or> \<not> isDigit (hd rest)" and "x \<le> 2 ^ 63"
  shows "leadingInt_loop x (ds @ rest)
         = (if foldl decimal_step x ds \<le> 2 ^ 63 then Some (foldl decimal_step x ds, rest)
            else None)"
  using assms
proof (induction ds arbitrary: x)
  case Nil
  then show ?case by (cases rest) auto
next
  case (Cons c ds)
  have c: "isDigit c" and ds: "list_all isDigit ds" using Cons.prems(1) by simp_all
  have ge: "decimal_step x c \<le> foldl decimal_step (decimal_step x c) ds"
    by (rule foldl_decimal_step_ge)
  have e: "x * 10 + digitVal c = decimal_step x c" by (simp add: decimal_step_def)
  show ?case
  proof (cases "2 ^ 63 div 10 < x")
    case True
    then have "(2::nat) ^ 63 < x * 10" by simp
    also have "\<dots> \<le> decimal_step x c" by (simp add: decimal_step_def)
    finally have "2 ^ 63 < foldl decimal_step (decimal_step x c) ds" using ge by simp
    with True c show ?thesis by simp
  next
    case False
    show ?thesis
    proof (cases "2 ^ 63 < decimal_step x c")
      case True
      with ge have "2 ^ 63 < foldl decimal_step (decimal_step x c) ds" by simp
      with True False c show ?thesis by (simp add: e)
    next
      case le: False
      then have "decimal_step x c \<le> 2 ^ 63" by simp
      from Cons.IH[OF ds Cons.prems(2) this] False le c show ?thesis
        by (simp add: e)
    qed
  qed
qed

lemma leadingInt_digits:
  assumes "list_all isDigit ds" and "rest = [] \<or> \<not> isDigit (hd rest)"
  shows "leadingInt (ds @ rest)
         = (if decimal_value ds \<le> 2 ^ 63 then Some (decimal_value ds, rest) else None)"
  unfolding leadingInt_def decimal_value_def
  using assms by (intro leadingInt_loop_exact) simp_all

lemma isUnitChar_simps:
  "isUnitChar (CHR ''h'')" "isUnitChar (CHR ''m'')" "isUnitChar (CHR ''s'')"
  by (simp_all add: isUnitChar_def isDigit_def)

lemma isUnitChar_digit: "isDigit c \<Longrightarrow> \<not> isUnitChar c"
  by (simp add: isUnitChar_def)

lemma takeWhile_unit_digits:
  "list_all isDigit f \<Longrightarrow>
   takeWhile isUnitChar (f @ x) = (if f = [] then takeWhile isUnitChar x else [])"
  by (cases f) (simp_all add: isUnitChar_digit)

lemma dropWhile_unit_digits:
  "list_all isDigit f \<Longrightarrow>
   dropWhile isUnitChar (f @ x) = (if f = [] then dropWhile isUnitChar x else f @ x)"
  by (cases f) (simp_all add: isUnitChar_digit)

lemma isDigit_not_sign: "isDigit c \<Longrightarrow> c \<noteq> CHR ''-'' \<and> c \<noteq> CHR ''+''"
  by (auto simp: isDigit_def)

lemma unitMap_hm: "unitMap (CHR ''h'' # CHR ''m'' # x) = None"
  by (simp add: unitMap_def)

lemma unitMap_msms: "unitMap ''msms'' = None" and unitMap_sms: "unitMap ''sms'' = None"
  by (simp_all add: unitMap_def)

lemma unitMap_units:
  "unitMap ''h'' = Some Hour" "unitMap ''m'' = Some Minute" "unitMap ''s'' = Some Second"
  "unitMap ''ms'' = Some Millisecond"
  by (simp_all add: unitMap_def)

lemma unit_pos: "0 < Hour" "0 < Minute" "0 < Second" "0 < Millisecond"
  by (simp_all add: Hour_def Minute_def Second_def Millisecond_def Microsecond_def
        Nanosecond_def)

lemma ParseDuration_step_digits:
  assumes "ds \<noteq> []" and "list_all isDigit ds" and "isUnitChar u"
  shows "ParseDuration_step orig (ds @ u # r)
         = (if 2 ^ 63 < decimal_value ds then Inl (invalid_duration orig)
            else case unitMap (takeWhile isUnitChar (u # r)) of
              None \<Rightarrow> Inl (errorString (''time: unknown unit ''
                        @ quote (takeWhile isUnitChar (u # r))
                        @ '' in duration '' @ quote orig))
            | Some unit \<Rightarrow>
                if 2 ^ 63 div unit < decimal_value ds then Inl (invalid_duration orig)
                else Inr (decimal_value ds * unit, dropWhile isUnitChar (u # r)))"
proof -
  obtain c cs where ds: "ds = c # cs" using assms(1) by (cases ds) auto
  have hd: "isDigit (hd (ds @ u # r))" using assms(2) ds by simp
  have nd: "\<not> isDigit u" and ndot: "u \<noteq> CHR ''.''"
    using assms(3) by (auto simp: isUnitChar_def)
  have li: "leadingInt (ds @ u # r)
         = (if decimal_value ds \<le> 2 ^ 63 then Some (decimal_value ds, u # r) else None)"
    using assms(2) nd by (intro leadingInt_digits) simp_all
  have len: "length (ds @ u # r) \<noteq> length (u # r)" using ds by simp
  show ?thesis
  proof (cases "2 ^ 63 < decimal_value ds")
    case True
    then show ?thesis using hd li by (simp add: ParseDuration_step_def)
  next
    case False
    then have li': "leadingInt (ds @ u # r) = Some (decimal_value ds, u # r)"
      using li by simp
    have tw: "takeWhile isUnitChar (u # r) \<noteq> []" using assms(3) by simp
    show ?thesis
      unfolding ParseDuration_step_def li'
      using hd False len ndot tw
      by (simp add: Let_def split: option.splits)
  qed
qed

lemma ParseDuration_step_error:
  "ParseDuration_step orig s = Inl e \<Longrightarrow> \<exists>pre. e = errorString (pre @ quote orig)"
  unfolding ParseDuration_step_def invalid_duration_def Let_def
  by (auto split: if_splits option.splits prod.splits)

lemma ParseDuration_loop_Nil: "ParseDuration_loop orig [] d = Inr d"
  by (subst ParseDuration_loop.simps) simp

lemma ParseDuration_loop_Inl:
  "s \<noteq> [] \<Longrightarrow> ParseDuration_step orig s = Inl e \<Longrightarrow> ParseDuration_loop orig s d = Inl e"
  by (subst ParseDuration_loop.simps) simp

lemma ParseDuration_loop_Inr:
  "s \<noteq> [] \<Longrightarrow> ParseDuration_step orig s = Inr (v, r) \<Longrightarrow>
   ParseDuration_loop orig s d
   = (if 2 ^ 63 < (d + v) mod 2 ^ 64 then Inl (invalid_duration orig)
      else ParseDuration_loop orig r ((d + v) mod 2 ^ 64))"
  by (subst ParseDuration_loop.simps) (simp add: Let_def)

lemma ParseDuration_loop_error:
  "ParseDuration_loop orig s d = Inl e \<Longrightarrow> \<exists>pre. e = errorString (pre @ quote orig)"
proof (induction orig s d rule: ParseDuration_loop.induct)
  case (1 orig s d)
  show ?case
  proof (cases "s = []")
    case True
    with "1.prems" show ?thesis by (simp add: ParseDuration_loop_Nil)
  next
    case False
    show ?thesis
    proof (cases "ParseDuration_step orig s")
      case (Inl e')
      with False "1.prems" have "e = e'" by (simp add: ParseDuration_loop_Inl)
      with Inl show ?thesis using ParseDuration_step_error by blast
    next
      case (Inr vr)
      obtain v r where vr: "vr = (v, r)" by (cases vr) auto
      note st = Inr[unfolded vr]
      show ?thesis
      proof (cases "2 ^ 63 < (d + v) mod 2 ^ 64")
        case True
        with "1.prems" have "e = invalid_duration orig"
          by (simp add: ParseDuration_loop_Inr[OF False st])
        then show ?thesis by (auto simp: invalid_duration_def)
      next
        case nov: False
        with "1.prems"
        have "ParseDuration_loop orig r ((d + v) mod 2 ^ 64) = Inl e"
          by (simp add: ParseDuration_loop_Inr[OF False st])
        from "1.IH"[OF False Inr vr[symmetric] refl nov this] show ?thesis .
      qed
    qed
  qed
qed

lemma ParseDuration_error:
  assumes "ParseDuration s = Inl e"
  shows "\<exists>pre. e = errorString (pre @ quote s)"
proof -
  define r where "r = (if s \<noteq> [] \<and> (hd s = CHR ''-'' \<or> hd s = CHR ''+'') then tl s else s)"
  have "e = invalid_duration s \<or> ParseDuration_loop s r 0 = Inl e"
    using assms unfolding ParseDuration_def Let_def r_def
    by (auto split: if_splits sum.splits)
  then show ?thesis
    using ParseDuration_loop_error[of s r 0 e] by (auto simp: invalid_duration_def)
qed

lemma ParseDuration_loop_fails_unknown:
  assumes "ds \<noteq> []" and "list_all isDigit ds" and "isUnitChar u"
    and "unitMap (takeWhile isUnitChar (u # r)) = None"
  shows "isl (ParseDuration_loop orig (ds @ u # r) d)"
proof -
  have "isl (ParseDuration_step orig (ds @ u # r))"
    using assms(4) by (simp add: ParseDuration_step_digits[OF assms(1-3)])
  then obtain e where "ParseDuration_step orig (ds @ u # r) = Inl e"
    by (cases "ParseDuration_step orig (ds @ u # r)") auto
  then show ?thesis by (simp add: ParseDuration_loop_Inl)
qed

lemma ParseDuration_loop_fails_cont:
  assumes "ds \<noteq> []" and "list_all isDigit ds" and "isUnitChar u"
    and "\<And>d'. isl (ParseDuration_loop orig (dropWhile isUnitChar (u # r)) d')"
  shows "isl (ParseDuration_loop orig (ds @ u # r) d)"
proof (cases "ParseDuration_step orig (ds @ u # r)")
  case (Inl e)
  then show ?thesis by (simp add: ParseDuration_loop_Inl)
next
  case (Inr vr)
  obtain v r' where vr: "vr = (v, r')" by (cases vr) auto
  from Inr vr have "r' = dropWhile isUnitChar (u # r)"
    unfolding ParseDuration_step_digits[OF assms(1-3)]
    by (auto split: if_splits option.splits)
  with Inr vr assms(4) show ?thesis
    by (simp add: ParseDuration_loop_Inr)
qed

lemma ParseDuration_isl:
  assumes "s \<noteq> []" and "hd s \<noteq> CHR ''-''" and "hd s \<noteq> CHR ''+''" and "s \<noteq> ''0''"
    and "isl (ParseDuration_loop s s 0)"
  shows "isl (ParseDuration s)"
  using assms unfolding ParseDuration_def Let_def
  by (auto split: sum.splits)

lemma ParseDuration_no_hours:
  "isl (ParseDuration (CHR ''h'' # x))"
proof -
  have "ParseDuration_step (CHR ''h'' # x) (CHR ''h'' # x) = Inl (invalid_duration (CHR ''h'' # x))"
    by (simp add: ParseDuration_step_def isDigit_def)
  then have "isl (ParseDuration_loop (CHR ''h'' # x) (CHR ''h'' # x) 0)"
    by (simp add: ParseDuration_loop_Inl)
  then show ?thesis by (intro ParseDuration_isl) simp_all
qed

lemma ParseDuration_no_minutes:
  assumes "f0 \<noteq> []" and "list_all isDigit f0"
  shows "isl (ParseDuration (f0 @ CHR ''h'' # CHR ''m'' # x))"
proof -
  let ?S = "f0 @ CHR ''h'' # CHR ''m'' # x"
  obtain c cs where f0: "f0 = c # cs" using assms(1) by (cases f0) auto
  have c: "isDigit c" using assms(2) f0 by simp
  have "isl (ParseDuration_loop ?S ?S 0)"
    using assms by (intro ParseDuration_loop_fails_unknown)
      (simp_all add: isUnitChar_simps unitMap_hm)
  then show ?thesis
    using isDigit_not_sign[OF c] by (intro ParseDuration_isl) (simp_all add: f0)
qed

lemma ParseDuration_no_millis:
  assumes "f0 \<noteq> []" and "list_all isDigit f0" and "f1 \<noteq> []" and "list_all isDigit f1"
    and "list_all isDigit f2"
  shows "isl (ParseDuration (f0 @ CHR ''h'' # f1 @ CHR ''m'' # f2 @ ''sms''))"
proof -
  let ?S = "f0 @ CHR ''h'' # f1 @ CHR ''m'' # f2 @ ''sms''"
  obtain c cs where f0: "f0 = c # cs" using assms(1) by (cases f0) auto
  have c: "isDigit c" using assms(2) f0 by simp
  have tail: "isl (ParseDuration_loop ?S (f1 @ CHR ''m'' # f2 @ ''sms'') d')" for d'
  proof (cases "f2 = []")
    case True
    show ?thesis
      using assms(3,4) True
      by (intro ParseDuration_loop_fails_unknown)
        (simp_all add: isUnitChar_simps unitMap_msms)
  next
    case False
    have "isl (ParseDuration_loop ?S (f2 @ ''sms'') d'')" for d''
      using False assms(5) ParseDuration_loop_fails_unknown[of f2 "CHR ''s''" "''ms''" ?S d'']
      by (simp add: isUnitChar_simps unitMap_sms)
    then show ?thesis
      using assms(3,4,5) False
      by (intro ParseDuration_loop_fails_cont)
        (simp_all add: isUnitChar_simps dropWhile_unit_digits)
  qed
  have "isl (ParseDuration_loop ?S ?S 0)"
    using assms(1,2,3,4) tail
    by (intro ParseDuration_loop_fails_cont)
      (simp_all add: isUnitChar_simps dropWhile_unit_digits)
  then show ?thesis
    using isDigit_not_sign[OF c] by (intro ParseDuration_isl) (simp_all add: f0)
qed

lemma empty_field_fails:
  assumes "2 \<le> seps data" and "seps data \<le> 3"
    and "fields data ! 0 = [] \<or> fields data ! 1 = [] \<or> (seps data = 3 \<and> fields data ! 3 = [])"
  shows "isl (ParseDuration (duration_string data))"
  using assms(1,2)
proof (cases rule: fields_shape)
  case (1 f0 f1 f2)
  have dg: "list_all isDigit f0" using fields_digits[of f0 data] 1(2) by simp
  have ds: "duration_string data = f0 @ CHR ''h'' # f1 @ CHR ''m'' # f2 @ ''s''"
    by (simp add: duration_string_def 1(2) formatStrings_def)
  from assms(3) 1 consider "f0 = []" | "f0 \<noteq> []" "f1 = []" by auto
  then show ?thesis
  proof cases
    case 1
    then show ?thesis by (simp add: ds ParseDuration_no_hours)
  next
    case 2
    then show ?thesis using ParseDuration_no_minutes[OF 2(1) dg] by (simp add: ds)
  qed
next
  case (2 f0 f1 f2 f3)
  have dg: "list_all isDigit f0" "list_all isDigit f1" "list_all isDigit f2"
    using fields_digits[of f0 data] fields_digits[of f1 data] fields_digits[of f2 data] 2(2)
    by simp_all
  have ds: "duration_string data = f0 @ CHR ''h'' # f1 @ CHR ''m'' # f2 @ CHR ''s'' # f3 @ ''ms''"
    by (simp add: duration_string_def 2(2) formatStrings_def)
  from assms(3) 2 consider "f0 = []" | "f0 \<noteq> []" "f1 = []"
    | "f0 \<noteq> []" "f1 \<noteq> []" "f3 = []" by auto
  then show ?thesis
  proof cases
    case 1
    then show ?thesis by (simp add: ds ParseDuration_no_hours)
  next
    case 2
    then show ?thesis using ParseDuration_no_minutes[OF 2(1) dg(1)] by (simp add: ds)
  next
    case 3
    then show ?thesis
      using ParseDuration_no_millis[OF 3(1) dg(1) 3(2) dg(2) dg(3)] by (simp add: ds)
  qed
qed

lemma ParseDuration_loop_step_ok:
  assumes "ds \<noteq> []" and "list_all isDigit ds" and "isUnitChar u"
    and "unitMap (takeWhile isUnitChar (u # r)) = Some unit" and "0 < unit"
    and "d + decimal_value ds * unit \<le> 2 ^ 63"
  shows "ParseDuration_loop orig (ds @ u # r) d
         = ParseDuration_loop orig (dropWhile isUnitChar (u # r)) (d + decimal_value ds * unit)"
proof -
  have vu: "decimal_value ds * unit \<le> 2 ^ 63" using assms(6) by simp
  have "decimal_value ds \<le> decimal_value ds * unit" using assms(5) by simp
  from this vu have "decimal_value ds \<le> 2 ^ 63" by (rule order_trans)
  then have v: "\<not> 2 ^ 63 < decimal_value ds" by (simp only: not_less)
  have "decimal_value ds \<le> 2 ^ 63 div unit"
    using vu assms(5) by (simp add: less_eq_div_iff_mult_less_eq)
  then have v2: "\<not> 2 ^ 63 div unit < decimal_value ds" by simp
  have st: "ParseDuration_step orig (ds @ u # r)
            = Inr (decimal_value ds * unit, dropWhile isUnitChar (u # r))"
    unfolding ParseDuration_step_digits[OF assms(1-3)] using v v2 assms(4) by simp
  have "d + decimal_value ds * unit < 2 ^ 64" using assms(6) by simp
  then have m: "(d + decimal_value ds * unit) mod 2 ^ 64 = d + decimal_value ds * unit"
    by simp
  have ne: "ds @ u # r \<noteq> []" by simp
  show ?thesis
    unfolding ParseDuration_loop_Inr[OF ne st] m using assms(6) by simp
qed

lemma ParseDuration_digits_first:
  assumes "H \<noteq> []" and "list_all isDigit H" and "x \<noteq> []"
    and "ParseDuration_loop (H @ x) (H @ x) 0 = Inr t" and "t \<le> 2 ^ 63 - 1"
  shows "ParseDuration (H @ x) = Inr (int t)"
proof -
  obtain c cs where H: "H = c # cs" using assms(1) by (cases H) auto
  have c: "isDigit c" using assms(2) H by simp
  obtain y ys where x: "x = y # ys" using assms(3) by (cases x) auto
  have "H @ x \<noteq> ''0''" by (simp add: H x)
  moreover have "hd (H @ x) \<noteq> CHR ''-''" "hd (H @ x) \<noteq> CHR ''+''"
    using isDigit_not_sign[OF c] by (simp_all add: H)
  moreover have "H @ x \<noteq> []" by (simp add: H)
  ultimately show ?thesis
    using assms(4,5) unfolding ParseDuration_def Let_def by simp
qed

lemma ParseDuration_hms:
  assumes H: "H \<noteq> []" "list_all isDigit H" and M: "M \<noteq> []" "list_all isDigit M"
    and S: "S \<noteq> []" "list_all isDigit S"
    and t: "decimal_value H * Hour + decimal_value M * Minute + decimal_value S * Second
            \<le> 2 ^ 63 - 1"
  shows "ParseDuration (H @ CHR ''h'' # M @ CHR ''m'' # S @ ''s'')
         = Inr (int (decimal_value H * Hour + decimal_value M * Minute
                     + decimal_value S * Second))"
proof -
  let ?o = "H @ CHR ''h'' # M @ CHR ''m'' # S @ ''s''"
  have 1: "ParseDuration_loop ?o ?o 0
        = ParseDuration_loop ?o (M @ CHR ''m'' # S @ ''s'') (0 + decimal_value H * Hour)"
    using H M t
    by (subst ParseDuration_loop_step_ok[where unit = Hour])
      (simp_all add: isUnitChar_simps takeWhile_unit_digits dropWhile_unit_digits
        unitMap_units unit_pos)
  have 2: "ParseDuration_loop ?o (M @ CHR ''m'' # S @ ''s'') (0 + decimal_value H * Hour)
        = ParseDuration_loop ?o (S @ ''s'')
            (0 + decimal_value H * Hour + decimal_value M * Minute)"
    using M S t
    by (subst ParseDuration_loop_step_ok[where unit = Minute])
      (simp_all add: isUnitChar_simps takeWhile_unit_digits dropWhile_unit_digits
        unitMap_units unit_pos)
  have 3: "ParseDuration_loop ?o (S @ ''s'')
            (0 + decimal_value H * Hour + decimal_value M * Minute)
        = ParseDuration_loop ?o []
            (0 + decimal_value H * Hour + decimal_value M * Minute + decimal_value S * Second)"
    using S t ParseDuration_loop_step_ok[of S "CHR ''s''" "[]" Second
        "0 + decimal_value H * Hour + decimal_value M * Minute" ?o]
    by (simp add: isUnitChar_simps unitMap_units unit_pos)
  have "ParseDuration_loop ?o ?o 0
        = Inr (decimal_value H * Hour + decimal_value M * Minute + decimal_value S * Second)"
    unfolding 1 2 3 by (simp add: ParseDuration_loop_Nil)
  then show ?thesis using H t by (intro ParseDuration_digits_first) simp_all
qed

lemma ParseDuration_hmsms:
  assumes H: "H \<noteq> []" "list_all isDigit H" and M: "M \<noteq> []" "list_all isDigit M"
    and S: "S \<noteq> []" "list_all isDigit S" and L: "L \<noteq> []" "list_all isDigit L"
    and t: "decimal_value H * Hour + decimal_value M * Minute + decimal_value S * Second
            + decimal_value L * Millisecond \<le> 2 ^ 63 - 1"
  shows "ParseDuration (H @ CHR ''h'' # M @ CHR ''m'' # S @ CHR ''s'' # L @ ''ms'')
         = Inr (int (decimal_value H * Hour + decimal_value M * Minute
                     + decimal_value S * Second + decimal_value L * Millisecond))"
proof -
  let ?o = "H @ CHR ''h'' # M @ CHR ''m'' # S @ CHR ''s'' # L @ ''ms''"
  have 1: "ParseDuration_loop ?o ?o 0
        = ParseDuration_loop ?o (M @ CHR ''m'' # S @ CHR ''s'' # L @ ''ms'')
            (0 + decimal_value H * Hour)"
    using H M t
    by (subst ParseDuration_loop_step_ok[where unit = Hour])
      (simp_all add: isUnitChar_simps takeWhile_unit_digits dropWhile_unit_digits
        unitMap_units unit_pos)
  have 2: "ParseDuration_loop ?o (M @ CHR ''m'' # S @ CHR ''s'' # L @ ''ms'')
            (0 + decimal_value H * Hour)
        = ParseDuration_loop ?o (S @ CHR ''s'' # L @ ''ms'')
            (0 + decimal_value H * Hour + decimal_value M * Minute)"
    using M S t
    by (subst ParseDuration_loop_step_ok[where unit = Minute])
      (simp_all add: isUnitChar_simps takeWhile_unit_digits dropWhile_unit_digits
        unitMap_units unit_pos)
  have 3: "ParseDuration_loop ?o (S @ CHR ''s'' # L @ ''ms'')
            (0 + decimal_value H * Hour + decimal_value M * Minute)
        = ParseDuration_loop ?o (L @ ''ms'')
            (0 + decimal_value H * Hour + decimal_value M * Minute + decimal_value S * Second)"
    using S L t
    by (subst ParseDuration_loop_step_ok[where unit = Second])
      (simp_all add: isUnitChar_simps takeWhile_unit_digits dropWhile_unit_digits
        unitMap_units unit_pos)
  have 4: "ParseDuration_loop ?o (L @ ''ms'')
            (0 + decimal_value H * Hour + decimal_value M * Minute + decimal_value S * Second)
        = ParseDuration_loop ?o []
            (0 + decimal_value H * Hour + decimal_value M * Minute + decimal_value S * Second
             + decimal_value L * Millisecond)"
    using L t ParseDuration_loop_step_ok[of L "CHR ''m''" "''s''" Millisecond
        "0 + decimal_value H * Hour + decimal_value M * Minute + decimal_value S * Second" ?o]
    by (simp add: isUnitChar_simps unitMap_units unit_pos)
  have "ParseDuration_loop ?o ?o 0
        = Inr (decimal_value H * Hour + decimal_value M * Minute + decimal_value S * Second
               + decimal_value L * Millisecond)"
    unfolding 1 2 3 4 by (simp add: ParseDuration_loop_Nil)
  then show ?thesis using H t by (intro ParseDuration_digits_first) simp_all
qed

section \<open>Facts about the branches of the time offset decoder\<close>

lemma HasSuffix_percent: "HasSuffix (body @ ''%'') ''%''"
  by (simp add: HasSuffix_def)

lemma TrimSuffix_percent: "TrimSuffix (body @ ''%'') ''%'' = body"
  by (simp add: TrimSuffix_def HasSuffix_def)

lemma HasSuffix_percentD: "HasSuffix data ''%'' \<Longrightarrow> data = TrimSuffix data ''%'' @ ''%''"
  by (auto simp: TrimSuffix_def HasSuffix_def) (metis append_take_drop_id)

lemma HasPrefix_hashD: "HasPrefix data ''#'' \<Longrightarrow> data = ''#'' @ TrimPrefix data ''#''"
  by (cases data) (auto simp: TrimPrefix_def HasPrefix_def)

lemma percent_branch:
  "TimeOffset_UnmarshalText to (body @ ''%'')
   = (case ParseInt body 10 8 of
        Inl err \<Rightarrow> (to, Some (wrapError ''error parsing percentage offset: '' err))
      | Inr p \<Rightarrow> (to\<lparr>Percent := float32 (of_int p / 100)\<rparr>, None))"
proof -
  have ne: "body @ ''%'' \<noteq> ''start''" "body @ ''%'' \<noteq> ''end''"
    by (auto simp: append_eq_Cons_conv)
  show ?thesis
  proof (cases "ParseInt body 10 8")
    case (Inl e)
    then show ?thesis
      by (simp add: TimeOffset_UnmarshalText_def ne HasSuffix_percent TrimSuffix_percent)
  next
    case (Inr p)
    then have "is_int8_text body" "p = int8_value body" by (simp_all add: ParseInt_8_Inr)
    then have "float32 (of_int p) = of_int p"
      using int8_value_range[of body] by (intro float32_of_int8) simp_all
    with Inr show ?thesis
      by (simp add: TimeOffset_UnmarshalText_def ne HasSuffix_percent TrimSuffix_percent)
  qed
qed

lemma hash_branch:
  assumes "\<not> HasSuffix (''#'' @ rest) ''%''"
  shows "TimeOffset_UnmarshalText to (''#'' @ rest)
   = (case ParseInt rest 10 8 of
        Inl err \<Rightarrow> (to, Some (wrapError ''error parsing position offset: '' err))
      | Inr p \<Rightarrow> (to\<lparr>Position := p\<rparr>, None))"
  using assms
  by (simp add: TimeOffset_UnmarshalText_def HasPrefix_def TrimPrefix_def)

lemma delegate_branch:
  assumes "data \<noteq> ''start''" and "data \<noteq> ''end''"
    and "\<not> HasSuffix data ''%''" and "\<not> HasPrefix data ''#''"
  shows "snd (TimeOffset_UnmarshalText to data) = snd (Duration_UnmarshalText 0 data)"
  using assms by (simp add: TimeOffset_UnmarshalText_def split: prod.splits)

section \<open>Encoding a duration of whole milliseconds\<close>

lemma sdiv_nonneg: "0 \<le> k \<Longrightarrow> 0 < l \<Longrightarrow> k sdiv l = k div (l::int)"
  by (cases "k = 0") (simp_all add: signed_divide_int_def)

lemma smod_nonneg: "0 \<le> k \<Longrightarrow> 0 < l \<Longrightarrow> k smod l = k mod (l::int)"
  by (cases "k = 0") (simp_all add: signed_modulo_int_def)

lemma trunc_Hours:
  assumes "0 \<le> n" and "n * 1000000 \<le> 2 ^ 63 - 1"
  shows "trunc (Hours (n * 1000000)) = n div 3600000"
proof -
  have dv: "(n * 1000000) div 3600000000000 = n div 3600000"
    using div_mult_mult2[of "1000000::int" n 3600000] by simp
  have md: "(n * 1000000) mod 3600000000000 = (n mod 3600000) * 1000000"
    using mod_mult_mult2[of n "1000000::int" 3600000] by simp
  have q0: "0 \<le> n div 3600000" using assms(1) by (simp add: pos_imp_zdiv_nonneg_iff)
  have "n \<le> 9223372036854" using assms(2) by simp
  then have "n div 3600000 \<le> 9223372036854 div 3600000" by (rule zdiv_mono1) simp
  then have q1: "(n div 3600000 + 1) * 2 ^ 22 \<le> 2 ^ 53" by simp
  have r0: "0 \<le> (n mod 3600000) * 1000000" by simp
  have rl: "n mod 3600000 \<le> 3599999"
    using pos_mod_bound[of 3600000 n] by simp
  then have r1: "(n mod 3600000) * 1000000 < 2 ^ 53" by simp
  have "(of_int ((n mod 3600000) * 1000000) :: rat) \<le> of_int (3599999 * 1000000)"
    using rl by (simp only: of_int_le_iff)
  then have fr: "(of_int ((n mod 3600000) * 1000000) :: rat) / (60 * 60 * 1000000000)
                 \<le> 1 - 1 / 2 ^ 22"
    by (simp add: field_simps)
  have "trunc (float64 (float64 (of_int (n div 3600000))
          + float64 (float64 (of_int ((n mod 3600000) * 1000000)) / (60 * 60 * 1000000000))))
        = n div 3600000"
    using q0 q1 r0 r1 _ fr by (rule trunc_float_sum) simp
  then show ?thesis
    using assms(1)
    by (simp add: Hours_def Hour_def Minute_def Second_def Millisecond_def Microsecond_def
          Nanosecond_def sdiv_nonneg smod_nonneg dv md Let_def)
qed

lemma trunc_Minutes:
  assumes "0 \<le> n" and "n * 1000000 \<le> 2 ^ 63 - 1"
  shows "trunc (Minutes (n * 1000000)) = n div 60000"
proof -
  have dv: "(n * 1000000) div 60000000000 = n div 60000"
    using div_mult_mult2[of "1000000::int" n 60000] by simp
  have md: "(n * 1000000) mod 60000000000 = (n mod 60000) * 1000000"
    using mod_mult_mult2[of n "1000000::int" 60000] by simp
  have q0: "0 \<le> n div 60000" using assms(1) by (simp add: pos_imp_zdiv_nonneg_iff)
  have "n \<le> 9223372036854" using assms(2) by simp
  then have "n div 60000 \<le> 9223372036854 div 60000" by (rule zdiv_mono1) simp
  then have q1: "(n div 60000 + 1) * 2 ^ 16 \<le> 2 ^ 53" by simp
  have r0: "0 \<le> (n mod 60000) * 1000000" by simp
  have rl: "n mod 60000 \<le> 59999"
    using pos_mod_bound[of 60000 n] by simp
  then have r1: "(n mod 60000) * 1000000 < 2 ^ 53" by simp
  have "(of_int ((n mod 60000) * 1000000) :: rat) \<le> of_int (59999 * 1000000)"
    using rl by (simp only: of_int_le_iff)
  then have fr: "(of_int ((n mod 60000) * 1000000) :: rat) / (60 * 1000000000)
                 \<le> 1 - 1 / 2 ^ 16"
    by (simp add: field_simps)
  have "trunc (float64 (float64 (of_int (n div 60000))
          + float64 (float64 (of_int ((n mod 60000) * 1000000)) / (60 * 1000000000))))
        = n div 60000"
    using q0 q1 r0 r1 _ fr by (rule trunc_float_sum) simp
  then show ?thesis
    using assms(1)
    by (simp add: Minutes_def Minute_def Second_def Millisecond_def Microsecond_def
          Nanosecond_def sdiv_nonneg smod_nonneg dv md Let_def)
qed

lemma trunc_Seconds:
  assumes "0 \<le> n" and "n * 1000000 \<le> 2 ^ 63 - 1"
  shows "trunc (Seconds (n * 1000000)) = n div 1000"
proof -
  have dv: "(n * 1000000) div 1000000000 = n div 1000"
    using div_mult_mult2[of "1000000::int" n 1000] by simp
  have md: "(n * 1000000) mod 1000000000 = (n mod 1000) * 1000000"
    using mod_mult_mult2[of n "1000000::int" 1000] by simp
  have q0: "0 \<le> n div 1000" using assms(1) by (simp add: pos_imp_zdiv_nonneg_iff)
  have "n \<le> 9223372036854" using assms(2) by simp
  then have "n div 1000 \<le> 9223372036854 div 1000" by (rule zdiv_mono1) simp
  then have q1: "(n div 1000 + 1) * 2 ^ 10 \<le> 2 ^ 53" by simp
  have r0: "0 \<le> (n mod 1000) * 1000000" by simp
  have rl: "n mod 1000 \<le> 999"
    using pos_mod_bound[of 1000 n] by simp
  then have r1: "(n mod 1000) * 1000000 < 2 ^ 53" by simp
  have "(of_int ((n mod 1000) * 1000000) :: rat) \<le> of_int (999 * 1000000)"
    using rl by (simp only: of_int_le_iff)
  then have fr: "(of_int ((n mod 1000) * 1000000) :: rat) / 1000000000 \<le> 1 - 1 / 2 ^ 10"
    by (simp add: field_simps)
  have "trunc (float64 (float64 (of_int (n div 1000))
          + float64 (float64 (of_int ((n mod 1000) * 1000000)) / 1000000000)))
        = n div 1000"
    using q0 q1 r0 r1 _ fr by (rule trunc_float_sum) simp
  then show ?thesis
    using assms(1)
    by (simp add: Seconds_def Second_def Millisecond_def Microsecond_def
          Nanosecond_def sdiv_nonneg smod_nonneg dv md Let_def)
qed

lemma Duration_MarshalText_ms:
  assumes "0 < n" and "n * 1000000 \<le> 2 ^ 63 - 1"
  shows "Duration_MarshalText (n * 1000000)
         = fmt_0d 2 (n div 3600000) @ '':'' @ fmt_0d 2 (n div 60000 mod 60) @ '':''
           @ fmt_0d 2 (n div 1000 mod 60)
           @ (if 0 < n mod 1000 then ''.'' @ fmt_0d 3 (n mod 1000) else [])"
proof -
  have n0: "0 \<le> n" using assms(1) by simp
  have a: "0 \<le> n div 60000" "0 \<le> n div 1000"
    using n0 by (simp_all add: pos_imp_zdiv_nonneg_iff)
  have ms: "Milliseconds (n * 1000000) = n"
    using n0 by (simp add: Milliseconds_def sdiv_nonneg)
  show ?thesis
    using assms(1) a n0
    by (simp add: Duration_MarshalText_def Let_def trunc_Hours[OF n0 assms(2)]
          trunc_Minutes[OF n0 assms(2)] trunc_Seconds[OF n0 assms(2)] ms smod_nonneg)
qed

lemma split_ms:
  fixes n :: int
  shows "n div 3600000 * 3600000 + n div 60000 mod 60 * 60000 + n div 1000 mod 60 * 1000
         + n mod 1000 = n"
proof -
  have 1: "n div 60000 = n div 1000 div 60"
    using zdiv_zmult2_eq[of 60 n 1000] by simp
  have 2: "n div 3600000 = n div 60000 div 60"
    using zdiv_zmult2_eq[of 60 n 60000] by simp
  have 3: "n div 1000 * 1000 + n mod 1000 = n" by simp
  have 4: "n div 1000 div 60 * 60 + n div 1000 mod 60 = n div 1000" by simp
  have 5: "n div 60000 div 60 * 60 + n div 60000 mod 60 = n div 60000" by simp
  show ?thesis using 1 2 3 4 5 by linarith
qed

section \<open>Evaluation on given inputs\<close>

lemmas fmt_eval = fmt_d_def fmt_0d_def itoa.simps pad0_def digits_def replicate_numeral_eval

lemmas int8_eval = is_int8_text_def int8_value_def decimal_value_def decimal_step_def
  digitVal_def isDigit_def

lemmas duration_eval = isDigit_def digitVal_def isSep_def formatStrings_def
  Duration_UnmarshalText_def ParseDuration_def ParseDuration_loop.simps ParseDuration_step_def
  leadingInt_def
  isUnitChar_def unitMap_def Hour_def Minute_def Second_def Millisecond_def Microsecond_def
  Nanosecond_def Let_def invalid_duration_def quote_def quote_byte_def lowerhex_def

lemmas parseint_eval = ParseInt_def ParseUint_def lower_def Let_def

lemmas message_eval = quote_def quote_byte_def Quote_def Quote_byte_def lowerhex_def
  sublist_code prefix_code

lemma decode_123_dot:
  "Duration_UnmarshalText d ''1:2:3.''
   = (d, Some (wrapError ''error parsing duration: ''
        (errorString (''time: unknown unit '' @ quote ''sms''
           @ '' in duration '' @ quote ''1h2m3sms''))))"
  by (simp add: duration_eval)

lemma decode_00_30:
  "Duration_UnmarshalText d ''00::30''
   = (d, Some (wrapError ''error parsing duration: ''
        (errorString (''time: unknown unit '' @ quote ''hm''
           @ '' in duration '' @ quote ''00hm30s''))))"
  by (simp add: duration_eval)

lemma decode_abc_percent:
  "TimeOffset_UnmarshalText to ''abc%''
   = (to, Some (wrapError ''error parsing percentage offset: ''
        (NumError ''ParseInt'' ''abc'' ErrSyntax)))"
proof -
  have "ParseInt ''abc'' 10 8 = Inl (NumError ''ParseInt'' ''abc'' ErrSyntax)"
    by (simp add: parseint_eval)
  then show ?thesis using percent_branch[of to "''abc''"] by simp
qed

lemma decode_hash_abc:
  "TimeOffset_UnmarshalText to ''#abc''
   = (to, Some (wrapError ''error parsing position offset: ''
        (NumError ''ParseInt'' ''abc'' ErrSyntax)))"
proof -
  have "ParseInt ''abc'' 10 8 = Inl (NumError ''ParseInt'' ''abc'' ErrSyntax)"
    by (simp add: parseint_eval)
  then show ?thesis using hash_branch[of "''abc''" to] by (simp add: HasSuffix_def)
qed

section \<open>Decoding an encoded duration\<close>

lemma round_trip_ms:
  assumes "0 \<le> n" and "n * 1000000 \<le> 2 ^ 63 - 1"
  shows "Duration_UnmarshalText d0 (Duration_MarshalText (n * 1000000)) = (n * 1000000, None)"
proof (cases "n = 0")
  case True
  have "Duration_UnmarshalText d0 ''00:00:00'' = (0, None)"
    by (simp add: duration_eval)
  with True show ?thesis by (simp add: Duration_MarshalText_def)
next
  case False
  with assms(1) have n: "0 < n" by simp
  define h where "h = n div 3600000"
  define m where "m = n div 60000 mod 60"
  define s where "s = n div 1000 mod 60"
  define l where "l = n mod 1000"
  have nn: "0 \<le> h" "0 \<le> m" "0 \<le> s" "0 \<le> l"
    using assms(1) by (simp_all add: h_def m_def s_def l_def pos_imp_zdiv_nonneg_iff)
  have sum: "h * 3600000 + m * 60000 + s * 1000 + l = n"
    unfolding h_def m_def s_def l_def by (rule split_ms)
  define H where "H = fmt_0d 2 h"
  define M where "M = fmt_0d 2 m"
  define S where "S = fmt_0d 2 s"
  define L where "L = fmt_0d 3 l"
  note pH = fmt_0d_props[OF nn(1), of 2, folded H_def]
  note pM = fmt_0d_props[OF nn(2), of 2, folded M_def]
  note pS = fmt_0d_props[OF nn(3), of 2, folded S_def]
  note pL = fmt_0d_props[OF nn(4), of 3, folded L_def]
  have colon: "isSep (CHR '':'')" and dot: "isSep (CHR ''.'')" by (simp_all add: isSep_def)
  have units: "Hour = 3600000 * 1000000" "Minute = 60000 * 1000000" "Second = 1000 * 1000000"
    "Millisecond = 1000000"
    by (simp_all add: Hour_def Minute_def Second_def Millisecond_def Microsecond_def
          Nanosecond_def)
  have enc: "Duration_MarshalText (n * 1000000)
         = H @ CHR '':'' # M @ CHR '':'' # S @ (if 0 < l then CHR ''.'' # L else [])"
    using Duration_MarshalText_ms[OF n assms(2)]
    by (simp add: H_def M_def S_def L_def h_def m_def s_def l_def)
  have tot: "nat h * Hour + nat m * Minute + nat s * Second + nat l * Millisecond
             = nat (n * 1000000)"
  proof -
    have "int (nat h * Hour + nat m * Minute + nat s * Second + nat l * Millisecond)
          = (h * 3600000 + m * 60000 + s * 1000 + l) * 1000000"
      using nn by (simp add: units algebra_simps)
    also have "\<dots> = n * 1000000" by (simp only: sum)
    finally show ?thesis by linarith
  qed
  have bound: "nat (n * 1000000) \<le> 2 ^ 63 - 1" using assms by simp
  show ?thesis
  proof (cases "0 < l")
    case True
    let ?t = "H @ CHR '':'' # M @ CHR '':'' # S @ CHR ''.'' # L"
    have f: "fields ?t = [H, M, S, L]"
      using pH(2) pM(2) pS(2) pL(2) colon dot
      by (simp add: fields_digits_sep fields_digits_only)
    have sp: "seps ?t = 3"
      using pH(2) pM(2) pS(2) pL(2) colon dot
      by (simp add: seps_digits_sep seps_digits_only)
    have ds: "duration_string ?t = H @ CHR ''h'' # M @ CHR ''m'' # S @ CHR ''s'' # L @ ''ms''"
      by (simp add: duration_string_def f formatStrings_def)
    have "ParseDuration (duration_string ?t)
          = Inr (int (decimal_value H * Hour + decimal_value M * Minute
                     + decimal_value S * Second + decimal_value L * Millisecond))"
      unfolding ds using pH pM pS pL tot bound
      by (intro ParseDuration_hmsms) simp_all
    also have "\<dots> = Inr (n * 1000000)"
      using pH(3) pM(3) pS(3) pL(3) tot assms(1) by simp
    finally have "Duration_UnmarshalText d0 ?t = (n * 1000000, None)"
      using Duration_UnmarshalText_parse[of ?t d0] sp by simp
    with True show ?thesis by (simp add: enc)
  next
    case False
    with nn(4) have l0: "l = 0" by simp
    let ?t = "H @ CHR '':'' # M @ CHR '':'' # S"
    have f: "fields ?t = [H, M, S]"
      using pH(2) pM(2) pS(2) colon
      by (simp add: fields_digits_sep fields_digits_only)
    have sp: "seps ?t = 2"
      using pH(2) pM(2) pS(2) colon
      by (simp add: seps_digits_sep seps_digits_only)
    have ds: "duration_string ?t = H @ CHR ''h'' # M @ CHR ''m'' # S @ ''s''"
      by (simp add: duration_string_def f formatStrings_def)
    have tot': "nat h * Hour + nat m * Minute + nat s * Second = nat (n * 1000000)"
      using tot l0 by simp
    have "ParseDuration (duration_string ?t)
          = Inr (int (decimal_value H * Hour + decimal_value M * Minute
                     + decimal_value S * Second))"
      unfolding ds using pH pM pS tot' bound
      by (intro ParseDuration_hms) simp_all
    also have "\<dots> = Inr (n * 1000000)"
      using pH(3) pM(3) pS(3) tot' assms(1) by simp
    finally have "Duration_UnmarshalText d0 ?t = (n * 1000000, None)"
      using Duration_UnmarshalText_parse[of ?t d0] sp by simp
    with False show ?thesis by (simp add: enc)
  qed
qed

section \<open>The round trip of the duration codec\<close>

text \<open>
  Claim C1.  For every count \<open>n\<close> of milliseconds from 0 up to the largest that a
  \<open>Duration\<close> (a signed 64-bit count of nanoseconds) can hold, decoding the encoding of
  the duration of \<open>n\<close> milliseconds succeeds and gives that duration back, whatever the
  receiver held before.  \<open>90:00:00\<close> decodes to 324000000 ms, the hours not being
  reduced modulo 24, and that duration is encoded as \<open>90:00:00\<close> again.
\<close>

theorem C1_round_trip:
  "(0 \<le> n \<and> n * 1000000 \<le> 2 ^ 63 - 1
      \<longrightarrow> Duration_UnmarshalText d0 (Duration_MarshalText (n * 1000000))
          = (n * 1000000, None))
   \<and> Duration_UnmarshalText d0 ''90:00:00'' = (324000000 * 1000000, None)
   \<and> Duration_MarshalText (324000000 * 1000000) = ''90:00:00''"
proof -
  have a: "Duration_UnmarshalText d0 ''90:00:00'' = (324000000 * 1000000, None)"
    by (simp add: duration_eval)
  have "Duration_MarshalText (324000000 * 1000000)
         = fmt_0d 2 (324000000 div 3600000) @ '':'' @ fmt_0d 2 (324000000 div 60000 mod 60)
           @ '':'' @ fmt_0d 2 (324000000 div 1000 mod 60)
           @ (if 0 < (324000000::int) mod 1000 then ''.'' @ fmt_0d 3 (324000000 mod 1000) else [])"
    by (rule Duration_MarshalText_ms) simp_all
  then have b: "Duration_MarshalText (324000000 * 1000000) = ''90:00:00''"
    by (simp add: fmt_eval)
  from a b round_trip_ms[of n d0] show ?thesis by blast
qed

theorem C1_round_trip_witness:
  "Duration_UnmarshalText 0 (Duration_MarshalText (3723004 * 1000000)) = (3723004 * 1000000, None)"
proof -
  have "(0::int) \<le> 3723004 \<and> 3723004 * 1000000 \<le> (2::int) ^ 63 - 1" by simp
  with C1_round_trip[of 3723004 0] show ?thesis by blast
qed

section \<open>Dispatch of the time offset decoder\<close>

text \<open>
  Claim C2.  \<open>TimeOffset.UnmarshalText\<close> tries, in this order: the exact text \<open>start\<close>
  (position -1); the exact text \<open>end\<close> (position -2); a text ending in \<open>%\<close>, whose
  body is parsed as an 8-bit integer \<open>p\<close> and stored as the 32-bit float nearest to
  \<open>p / 100\<close>, a parse error being wrapped and returned (the body may itself begin with
  \<open>#\<close>: the suffix is tried first); a text beginning with \<open>#\<close>, whose rest is parsed
  likewise and stored as the position; anything else is handed whole to
  \<open>Duration.UnmarshalText\<close>, its result stored in the \<open>Duration\<close> field and its error
  returned unchanged.  So \<open>50%\<close> gives 0.5, \<open>#-1\<close> gives -1 and \<open>#3\<close> gives 3.
\<close>

theorem C2_decode_dispatch:
  "TimeOffset_UnmarshalText to ''start'' = (to\<lparr>Position := - 1\<rparr>, None)
   \<and> TimeOffset_UnmarshalText to ''end'' = (to\<lparr>Position := - 2\<rparr>, None)
   \<and> (\<forall>p. ParseInt body 10 8 = Inr p
        \<longrightarrow> TimeOffset_UnmarshalText to (body @ ''%'')
            = (to\<lparr>Percent := float32 (of_int p / 100)\<rparr>, None))
   \<and> (\<forall>e. ParseInt body 10 8 = Inl e
        \<longrightarrow> TimeOffset_UnmarshalText to (body @ ''%'')
            = (to, Some (wrapError ''error parsing percentage offset: '' e)))
   \<and> (\<not> HasSuffix (''#'' @ rest) ''%''
        \<longrightarrow> (\<forall>p. ParseInt rest 10 8 = Inr p
               \<longrightarrow> TimeOffset_UnmarshalText to (''#'' @ rest) = (to\<lparr>Position := p\<rparr>, None))
          \<and> (\<forall>e. ParseInt rest 10 8 = Inl e
               \<longrightarrow> TimeOffset_UnmarshalText to (''#'' @ rest)
                   = (to, Some (wrapError ''error parsing position offset: '' e))))
   \<and> (data \<noteq> ''start'' \<and> data \<noteq> ''end'' \<and> \<not> HasSuffix data ''%'' \<and> \<not> HasPrefix data ''#''
        \<longrightarrow> (\<forall>d. Duration_UnmarshalText 0 data = (d, None)
               \<longrightarrow> TimeOffset_UnmarshalText to data = (to\<lparr>Duration := Some d\<rparr>, None))
          \<and> (\<forall>d e. Duration_UnmarshalText 0 data = (d, Some e)
               \<longrightarrow> snd (TimeOffset_UnmarshalText to data) = Some e))
   \<and> TimeOffset_UnmarshalText to ''50%'' = (to\<lparr>Percent := 1 / 2\<rparr>, None)
   \<and> TimeOffset_UnmarshalText to ''#-1'' = (to\<lparr>Position := - 1\<rparr>, None)
   \<and> TimeOffset_UnmarshalText to ''#3'' = (to\<lparr>Position := 3\<rparr>, None)"
proof -
  have a: "TimeOffset_UnmarshalText to ''start'' = (to\<lparr>Position := - 1\<rparr>, None)"
    by (simp add: TimeOffset_UnmarshalText_def OffsetStart_def)
  have b: "TimeOffset_UnmarshalText to ''end'' = (to\<lparr>Position := - 2\<rparr>, None)"
    by (simp add: TimeOffset_UnmarshalText_def OffsetEnd_def)
  have c: "\<forall>p. ParseInt body 10 8 = Inr p
        \<longrightarrow> TimeOffset_UnmarshalText to (body @ ''%'')
            = (to\<lparr>Percent := float32 (of_int p / 100)\<rparr>, None)"
    by (simp add: percent_branch)
  have d: "\<forall>e. ParseInt body 10 8 = Inl e
        \<longrightarrow> TimeOffset_UnmarshalText to (body @ ''%'')
            = (to, Some (wrapError ''error parsing percentage offset: '' e))"
    by (simp add: percent_branch)
  have e: "\<not> HasSuffix (''#'' @ rest) ''%''
        \<longrightarrow> (\<forall>p. ParseInt rest 10 8 = Inr p
               \<longrightarrow> TimeOffset_UnmarshalText to (''#'' @ rest) = (to\<lparr>Position := p\<rparr>, None))
          \<and> (\<forall>e. ParseInt rest 10 8 = Inl e
               \<longrightarrow> TimeOffset_UnmarshalText to (''#'' @ rest)
                   = (to, Some (wrapError ''error parsing position offset: '' e)))"
    using hash_branch[of rest to] by auto
  have f: "data \<noteq> ''start'' \<and> data \<noteq> ''end'' \<and> \<not> HasSuffix data ''%'' \<and> \<not> HasPrefix data ''#''
        \<longrightarrow> (\<forall>d. Duration_UnmarshalText 0 data = (d, None)
               \<longrightarrow> TimeOffset_UnmarshalText to data = (to\<lparr>Duration := Some d\<rparr>, None))
          \<and> (\<forall>d e. Duration_UnmarshalText 0 data = (d, Some e)
               \<longrightarrow> snd (TimeOffset_UnmarshalText to data) = Some e)"
    by (simp add: TimeOffset_UnmarshalText_def)
  have "ParseInt ''50'' 10 8 = Inr 50" by (simp add: ParseInt_8_Inr int8_eval)
  then have g: "TimeOffset_UnmarshalText to ''50%'' = (to\<lparr>Percent := 1 / 2\<rparr>, None)"
    using percent_branch[of to "''50''"] by (simp add: float32_half)
  have "ParseInt ''-1'' 10 8 = Inr (- 1)" by (simp add: ParseInt_8_Inr int8_eval)
  then have h: "TimeOffset_UnmarshalText to ''#-1'' = (to\<lparr>Position := - 1\<rparr>, None)"
    using hash_branch[of "''-1''" to] by (simp add: HasSuffix_def)
  have "ParseInt ''3'' 10 8 = Inr 3" by (simp add: ParseInt_8_Inr int8_eval)
  then have i: "TimeOffset_UnmarshalText to ''#3'' = (to\<lparr>Position := 3\<rparr>, None)"
    using hash_branch[of "''3''" to] by (simp add: HasSuffix_def)
  from a b c d e f g h i show ?thesis by blast
qed

theorem C2_decode_dispatch_witness:
  "TimeOffset_UnmarshalText TimeOffset_zero (''7'' @ ''%'')
     = (TimeOffset_zero\<lparr>Percent := float32 (of_int 7 / 100)\<rparr>, None)
   \<and> TimeOffset_UnmarshalText TimeOffset_zero (''abc'' @ ''%'')
       = (TimeOffset_zero, Some (wrapError ''error parsing percentage offset: ''
            (NumError ''ParseInt'' ''abc'' ErrSyntax)))
   \<and> TimeOffset_UnmarshalText TimeOffset_zero (''#'' @ ''12'')
       = (TimeOffset_zero\<lparr>Position := 12\<rparr>, None)
   \<and> TimeOffset_UnmarshalText TimeOffset_zero (''#'' @ ''abc'')
       = (TimeOffset_zero, Some (wrapError ''error parsing position offset: ''
            (NumError ''ParseInt'' ''abc'' ErrSyntax)))
   \<and> TimeOffset_UnmarshalText TimeOffset_zero ''1:2:3''
       = (TimeOffset_zero\<lparr>Duration := Some 3723000000000\<rparr>, None)
   \<and> snd (TimeOffset_UnmarshalText TimeOffset_zero ''1'')
       = Some (errorString ''invalid duration format: 1'')"
proof -
  have p1: "ParseInt ''7'' 10 8 = Inr 7" by (simp add: parseint_eval)
  have p2: "ParseInt ''abc'' 10 8 = Inl (NumError ''ParseInt'' ''abc'' ErrSyntax)"
    by (simp add: parseint_eval)
  have p3: "ParseInt ''12'' 10 8 = Inr 12" by (simp add: parseint_eval)
  have h1: "\<not> HasSuffix (''#'' @ ''12'') ''%''" and h2: "\<not> HasSuffix (''#'' @ ''abc'') ''%''"
    by (simp_all add: HasSuffix_def)
  have c1: "''1:2:3'' \<noteq> ''start'' \<and> ''1:2:3'' \<noteq> ''end'' \<and> \<not> HasSuffix ''1:2:3'' ''%''
            \<and> \<not> HasPrefix ''1:2:3'' ''#''"
    by (simp add: HasSuffix_def HasPrefix_def)
  have c2: "''1'' \<noteq> ''start'' \<and> ''1'' \<noteq> ''end'' \<and> \<not> HasSuffix ''1'' ''%''
            \<and> \<not> HasPrefix ''1'' ''#''"
    by (simp add: HasSuffix_def HasPrefix_def)
  have d1: "Duration_UnmarshalText 0 ''1:2:3'' = (3723000000000, None)"
    by (simp add: duration_eval)
  have d2: "Duration_UnmarshalText 0 ''1'' = (0, Some (errorString ''invalid duration format: 1''))"
    by (simp add: duration_eval)
  note A = C2_decode_dispatch[of TimeOffset_zero "''7''" "''12''" "''1:2:3''"]
  note B = C2_decode_dispatch[of TimeOffset_zero "''abc''" "''abc''" "''1''"]
  from A p1 have 1: "TimeOffset_UnmarshalText TimeOffset_zero (''7'' @ ''%'')
     = (TimeOffset_zero\<lparr>Percent := float32 (of_int 7 / 100)\<rparr>, None)" by blast
  from B p2 have 2: "TimeOffset_UnmarshalText TimeOffset_zero (''abc'' @ ''%'')
       = (TimeOffset_zero, Some (wrapError ''error parsing percentage offset: ''
            (NumError ''ParseInt'' ''abc'' ErrSyntax)))" by blast
  from A p3 h1 have 3: "TimeOffset_UnmarshalText TimeOffset_zero (''#'' @ ''12'')
       = (TimeOffset_zero\<lparr>Position := 12\<rparr>, None)" by blast
  from B p2 h2 have 4: "TimeOffset_UnmarshalText TimeOffset_zero (''#'' @ ''abc'')
       = (TimeOffset_zero, Some (wrapError ''error parsing position offset: ''
            (NumError ''ParseInt'' ''abc'' ErrSyntax)))" by blast
  from A c1 d1 have 5: "TimeOffset_UnmarshalText TimeOffset_zero ''1:2:3''
       = (TimeOffset_zero\<lparr>Duration := Some 3723000000000\<rparr>, None)" by blast
  from B c2 d2 have 6: "snd (TimeOffset_UnmarshalText TimeOffset_zero ''1'')
       = Some (errorString ''invalid duration format: 1'')" by blast
  from 1 2 3 4 5 6 show ?thesis by blast
qed

section \<open>Fields without digits\<close>

text \<open>
  Claim C3, as the code has it.  A field without digits is not read as zero: the
  duration parser of the standard library refuses a unit that has no number in front of
  it.  For every input with two or three separators whose hours field, minutes field or
  (after a third separator) milliseconds field has no digits, \<open>Duration.UnmarshalText\<close>
  fails with the error \<open>error parsing duration\<close> and leaves the receiver as it was;
  \<open>1:2:3.\<close> and \<open>00::30\<close> are such inputs.
\<close>

theorem C3_empty_field:
  "(2 \<le> seps data \<and> seps data \<le> 3
     \<and> (fields data ! 0 = [] \<or> fields data ! 1 = []
          \<or> (seps data = 3 \<and> fields data ! 3 = []))
    \<longrightarrow> (\<exists>err. Duration_UnmarshalText d data
                = (d, Some (wrapError ''error parsing duration: '' err))))
   \<and> Duration_UnmarshalText d ''1:2:3.''
       = (d, Some (wrapError ''error parsing duration: ''
            (errorString (''time: unknown unit '' @ quote ''sms''
               @ '' in duration '' @ quote ''1h2m3sms''))))
   \<and> Duration_UnmarshalText d ''00::30''
       = (d, Some (wrapError ''error parsing duration: ''
            (errorString (''time: unknown unit '' @ quote ''hm''
               @ '' in duration '' @ quote ''00hm30s''))))"
proof -
  have "\<exists>err. Duration_UnmarshalText d data
                = (d, Some (wrapError ''error parsing duration: '' err))"
    if a: "2 \<le> seps data" "seps data \<le> 3"
      and b: "fields data ! 0 = [] \<or> fields data ! 1 = []
          \<or> (seps data = 3 \<and> fields data ! 3 = [])"
  proof -
    have "isl (ParseDuration (duration_string data))"
      using a b by (rule empty_field_fails)
    then obtain err where "ParseDuration (duration_string data) = Inl err"
      by (cases "ParseDuration (duration_string data)") auto
    then show ?thesis by (simp add: Duration_UnmarshalText_parse[OF a])
  qed
  then show ?thesis using decode_123_dot[of d] decode_00_30[of d] by blast
qed

theorem C3_empty_field_witness:
  "\<exists>err. Duration_UnmarshalText 0 ''12:34:56.''
          = (0, Some (wrapError ''error parsing duration: '' err))"
proof -
  have "2 \<le> seps ''12:34:56.'' \<and> seps ''12:34:56.'' \<le> 3
     \<and> (fields ''12:34:56.'' ! 0 = [] \<or> fields ''12:34:56.'' ! 1 = []
          \<or> (seps ''12:34:56.'' = 3 \<and> fields ''12:34:56.'' ! 3 = []))"
    by (simp add: seps_def isSep_def isDigit_def)
  with C3_empty_field[of "''12:34:56.''" 0] show ?thesis by blast
qed

text \<open>
  The claim as stated fails at both of its examples: \<open>1:2:3.\<close> (an empty trailing
  field) and \<open>00::30\<close> (an empty field between two separators) satisfy the separator
  count and are refused.
\<close>

theorem C3_counterexample:
  "seps ''1:2:3.'' = 3 \<and> fields ''1:2:3.'' = [''1'', ''2'', ''3'', []]
   \<and> Duration_UnmarshalText 0 ''1:2:3.''
       = (0, Some (wrapError ''error parsing duration: ''
            (errorString (''time: unknown unit '' @ quote ''sms''
               @ '' in duration '' @ quote ''1h2m3sms''))))
   \<and> seps ''00::30'' = 2 \<and> fields ''00::30'' = [''00'', [], ''30'']
   \<and> Duration_UnmarshalText 0 ''00::30''
       = (0, Some (wrapError ''error parsing duration: ''
            (errorString (''time: unknown unit '' @ quote ''hm''
               @ '' in duration '' @ quote ''00hm30s''))))"
  by (simp add: decode_123_dot decode_00_30 seps_def isSep_def isDigit_def)

section \<open>The separator count\<close>

text \<open>
  Claim C4, as the code has it.  \<open>Duration.UnmarshalText\<close> returns its error
  \<open>invalid duration format\<close> exactly when the number of separators lies outside the range
  from 2 to 3: a fourth separator is refused, since there is no fifth unit.  So
  \<open>1\<close> (no separator) and \<open>1:2:3:4:5\<close> (four separators) fail with that error, and an
  input with two or three separators never does.
\<close>

theorem C4_separator_count:
  "(snd (Duration_UnmarshalText d data)
      = Some (errorString (''invalid duration format: '' @ data))
    \<longleftrightarrow> seps data < 2 \<or> 3 < seps data)
   \<and> snd (Duration_UnmarshalText d ''1'') = Some (errorString ''invalid duration format: 1'')
   \<and> snd (Duration_UnmarshalText d ''1:2:3:4:5'')
       = Some (errorString ''invalid duration format: 1:2:3:4:5'')"
proof -
  have main: "snd (Duration_UnmarshalText d data)
      = Some (errorString (''invalid duration format: '' @ data))
    \<longleftrightarrow> seps data < 2 \<or> 3 < seps data" for data
  proof (cases "3 < seps data")
    case True
    then have "UnmarshalText_loop data data [] 0
        = Inl (errorString (''invalid duration format: '' @ data))"
      by (intro UnmarshalText_loop_Inl) simp_all
    with True show ?thesis by (simp add: Duration_UnmarshalText_def)
  next
    case False
    then have "0 + seps data \<le> 3" by simp
    from UnmarshalText_loop_Inr[OF this] obtain sb
      where "UnmarshalText_loop data data [] 0 = Inr (sb, seps data)" by auto
    with False show ?thesis
      by (auto simp: Duration_UnmarshalText_def Let_def split: sum.splits)
  qed
  have "seps ''1'' < 2" by (simp add: seps_def isSep_def)
  moreover have "3 < seps ''1:2:3:4:5''" by (simp add: seps_def isSep_def)
  ultimately show ?thesis using main[of data] main[of "''1''"] main[of "''1:2:3:4:5''"]
    by simp
qed

text \<open>
  The claim as stated, with the range from 2 to 4, fails: \<open>1:2:3:4:5\<close> has four
  separators and is refused by the separator count.
\<close>

theorem C4_counterexample:
  "seps ''1:2:3:4:5'' = 4
   \<and> Duration_UnmarshalText 0 ''1:2:3:4:5''
       = (0, Some (errorString ''invalid duration format: 1:2:3:4:5''))"
  by code_simp

section \<open>Positional units\<close>

text \<open>
  Claim C5.  The result of \<open>Duration.UnmarshalText\<close> (the decoded value, and whether it
  fails) depends only on the interleaved sequence of digits and separators: two inputs
  with the same skeleton decode alike.  With two or three separators the decoder parses
  the text in which the Nth field is followed by the Nth unit name of \<open>h\<close>, \<open>m\<close>, \<open>s\<close>,
  \<open>ms\<close>, whichever separator was written.  So \<open>1.2.3\<close> and \<open>1x:2:3y\<close> decode as
  \<open>1:2:3\<close> does, to 3723000 ms (in nanoseconds, as Go counts a duration).
\<close>

theorem C5_positional_units:
  "(skeleton a = skeleton b
      \<longrightarrow> fst (Duration_UnmarshalText d a) = fst (Duration_UnmarshalText d b)
        \<and> (snd (Duration_UnmarshalText d a) = None
             \<longleftrightarrow> snd (Duration_UnmarshalText d b) = None))
   \<and> (2 \<le> seps data \<and> seps data \<le> 3
      \<longrightarrow> Duration_UnmarshalText d data
          = (case ParseDuration (duration_string data) of
               Inl err \<Rightarrow> (d, Some (wrapError ''error parsing duration: '' err))
             | Inr dur \<Rightarrow> (dur, None)))
   \<and> duration_string ''1x:2:3y'' = ''1h2m3s''
   \<and> duration_string ''1.2:3.4'' = ''1h2m3s4ms''
   \<and> Duration_UnmarshalText d ''1:2:3'' = (3723000000000, None)
   \<and> Duration_UnmarshalText d ''1.2.3'' = (3723000000000, None)
   \<and> Duration_UnmarshalText d ''1x:2:3y'' = (3723000000000, None)"
proof -
  have 1: "fst (Duration_UnmarshalText d a) = fst (Duration_UnmarshalText d b)
        \<and> (snd (Duration_UnmarshalText d a) = None
             \<longleftrightarrow> snd (Duration_UnmarshalText d b) = None)"
    if s: "skeleton a = skeleton b"
  proof (cases "seps a < 2 \<or> 3 < seps a")
    case True
    then have "seps b < 2 \<or> 3 < seps b" using skeleton_same(2)[OF s] by simp
    with True show ?thesis by (simp add: Duration_UnmarshalText_count)
  next
    case False
    then have a: "2 \<le> seps a" "seps a \<le> 3" by simp_all
    then have b: "2 \<le> seps b" "seps b \<le> 3" using skeleton_same(2)[OF s] by simp_all
    show ?thesis
      unfolding Duration_UnmarshalText_parse[OF a] Duration_UnmarshalText_parse[OF b]
        skeleton_same(3)[OF s]
      by (cases "ParseDuration (duration_string b)") simp_all
  qed
  have 2: "2 \<le> seps data \<and> seps data \<le> 3
      \<longrightarrow> Duration_UnmarshalText d data
          = (case ParseDuration (duration_string data) of
               Inl err \<Rightarrow> (d, Some (wrapError ''error parsing duration: '' err))
             | Inr dur \<Rightarrow> (dur, None))"
    using Duration_UnmarshalText_parse[of data d] by blast
  have 3: "duration_string ''1x:2:3y'' = ''1h2m3s''"
    "duration_string ''1.2:3.4'' = ''1h2m3s4ms''"
    by (simp_all add: duration_string_def formatStrings_def isSep_def isDigit_def)
  have 4: "Duration_UnmarshalText d ''1:2:3'' = (3723000000000, None)"
    "Duration_UnmarshalText d ''1.2.3'' = (3723000000000, None)"
    "Duration_UnmarshalText d ''1x:2:3y'' = (3723000000000, None)"
    by (simp_all add: duration_eval)
  from 1 2 3 4 show ?thesis by blast
qed

theorem C5_positional_units_witness:
  "fst (Duration_UnmarshalText 0 ''07-:08.09 ?'') = fst (Duration_UnmarshalText 0 ''07.08:09'')
   \<and> (snd (Duration_UnmarshalText 0 ''07-:08.09 ?'') = None)
       = (snd (Duration_UnmarshalText 0 ''07.08:09'') = None)
   \<and> Duration_UnmarshalText 0 ''07.08:09''
       = (case ParseDuration (duration_string ''07.08:09'') of
            Inl err \<Rightarrow> (0, Some (wrapError ''error parsing duration: '' err))
          | Inr dur \<Rightarrow> (dur, None))"
proof -
  have s: "skeleton ''07-:08.09 ?'' = skeleton ''07.08:09''"
    by (simp add: skeleton_def isSep_def isDigit_def)
  have c: "2 \<le> seps ''07.08:09'' \<and> seps ''07.08:09'' \<le> 3"
    by (simp add: seps_def isSep_def)
  from C5_positional_units[of "''07-:08.09 ?''" "''07.08:09''" 0 "''07.08:09''"] s c
  show ?thesis by blast
qed

section \<open>Precedence of the time offset encoder\<close>

text \<open>
  Claim C6.  \<open>TimeOffset.MarshalText\<close> looks at the fields in a fixed order: a
  \<open>Duration\<close> that is not nil is rendered by \<open>Duration.MarshalText\<close>; otherwise a
  position other than zero is rendered as \<open>#\<close> and the position in decimal; otherwise a
  percentage other than zero is rendered as the percentage times 100 with the verb \<open>%f\<close>
  and a percent sign; otherwise the text is empty.  So a value decoded from \<open>start\<close> or
  \<open>end\<close> (into a receiver without a duration) is encoded as \<open>#-1\<close> or \<open>#-2\<close>, and the
  value decoded from \<open>#0\<close> is the zero value and is encoded as the empty text.
\<close>

theorem C6_encode_precedence:
  "(\<forall>d. Duration to = Some d \<longrightarrow> TimeOffset_MarshalText to = Duration_MarshalText d)
   \<and> (Duration to = None \<and> Position to \<noteq> 0
        \<longrightarrow> TimeOffset_MarshalText to = ''#'' @ fmt_d (Position to))
   \<and> (Duration to = None \<and> Position to = 0 \<and> Percent to \<noteq> 0
        \<longrightarrow> TimeOffset_MarshalText to = fmt_f (float32 (Percent to * 100)) @ ''%'')
   \<and> (Duration to = None \<and> Position to = 0 \<and> Percent to = 0
        \<longrightarrow> TimeOffset_MarshalText to = [])
   \<and> (Duration to = None
        \<longrightarrow> TimeOffset_MarshalText (fst (TimeOffset_UnmarshalText to ''start'')) = ''#-1''
          \<and> TimeOffset_MarshalText (fst (TimeOffset_UnmarshalText to ''end'')) = ''#-2'')
   \<and> TimeOffset_UnmarshalText TimeOffset_zero ''#0'' = (TimeOffset_zero, None)
   \<and> TimeOffset_MarshalText (fst (TimeOffset_UnmarshalText TimeOffset_zero ''#0'')) = []"
proof -
  have m1: "fmt_d (- 1) = ''-1''" and m2: "fmt_d (- 2) = ''-2''"
    by (simp_all add: fmt_eval)
  have "ParseInt ''0'' 10 8 = Inr 0" by (simp add: parseint_eval)
  then have z: "TimeOffset_UnmarshalText TimeOffset_zero ''#0'' = (TimeOffset_zero, None)"
    using hash_branch[of "''0''" TimeOffset_zero]
    by (simp add: HasSuffix_def TimeOffset_zero_def)
  have e: "TimeOffset_MarshalText TimeOffset_zero = []"
    by (simp add: TimeOffset_MarshalText_def TimeOffset_zero_def)
  have g: "(\<forall>d. Duration to = Some d \<longrightarrow> TimeOffset_MarshalText to = Duration_MarshalText d)
   \<and> (Duration to = None \<and> Position to \<noteq> 0
        \<longrightarrow> TimeOffset_MarshalText to = ''#'' @ fmt_d (Position to))
   \<and> (Duration to = None \<and> Position to = 0 \<and> Percent to \<noteq> 0
        \<longrightarrow> TimeOffset_MarshalText to = fmt_f (float32 (Percent to * 100)) @ ''%'')
   \<and> (Duration to = None \<and> Position to = 0 \<and> Percent to = 0
        \<longrightarrow> TimeOffset_MarshalText to = [])
   \<and> (Duration to = None
        \<longrightarrow> TimeOffset_MarshalText (fst (TimeOffset_UnmarshalText to ''start'')) = ''#-1''
          \<and> TimeOffset_MarshalText (fst (TimeOffset_UnmarshalText to ''end'')) = ''#-2'')"
    by (simp add: TimeOffset_MarshalText_def TimeOffset_UnmarshalText_def
          OffsetStart_def OffsetEnd_def m1 m2)
  have "TimeOffset_MarshalText (fst (TimeOffset_UnmarshalText TimeOffset_zero ''#0'')) = []"
    by (simp only: z e fst_conv)
  with g z show ?thesis by blast
qed

theorem C6_encode_precedence_witness:
  "TimeOffset_MarshalText \<lparr>Duration = Some 0, Position = 3, Percent = 1 / 2\<rparr> = ''00:00:00''
   \<and> TimeOffset_MarshalText \<lparr>Duration = None, Position = 3, Percent = 1 / 2\<rparr> = ''#3''
   \<and> TimeOffset_MarshalText \<lparr>Duration = None, Position = 0, Percent = 1 / 2\<rparr>
       = ''50.000000%''
   \<and> TimeOffset_MarshalText \<lparr>Duration = None, Position = 0, Percent = 0\<rparr> = []
   \<and> TimeOffset_MarshalText
         (fst (TimeOffset_UnmarshalText \<lparr>Duration = None, Position = 0, Percent = 0\<rparr> ''start''))
       = ''#-1''"
proof -
  have a: "Duration_MarshalText 0 = ''00:00:00''" by (simp add: Duration_MarshalText_def)
  have b: "fmt_d 3 = ''3''" by (simp add: fmt_eval)
  have "float32 (of_int 50) = of_int 50"
    unfolding float32_def by (rule fl_round_of_int) simp_all
  then have "float32 50 = 50" by simp
  moreover have "fmt_f 50 = ''50.000000''"
    unfolding fmt_f_def Let_def by (simp add: round_even_numeral fmt_eval)
  ultimately have c: "fmt_f (float32 50) = ''50.000000''"
    by (simp only:)
  show ?thesis
    using C6_encode_precedence[of "\<lparr>Duration = Some 0, Position = 3, Percent = 1 / 2\<rparr>"]
      C6_encode_precedence[of "\<lparr>Duration = None, Position = 3, Percent = 1 / 2\<rparr>"]
      C6_encode_precedence[of "\<lparr>Duration = None, Position = 0, Percent = 1 / 2\<rparr>"]
      C6_encode_precedence[of "\<lparr>Duration = None, Position = 0, Percent = 0\<rparr>"]
    by (simp add: a b c)
qed

section \<open>Failure of the numeric branches\<close>

text \<open>
  Claim C7.  For an input ending in \<open>%\<close>, decoding fails exactly when the text in front
  of the \<open>%\<close> is not a decimal integer within the signed 8-bit range; for an input
  beginning with \<open>#\<close> (and not ending in \<open>%\<close>, which is tried first), it fails exactly
  when the text after the \<open>#\<close> is not one.  \<open>#abc\<close>, \<open>abc%\<close> and \<open>200%\<close> fail.
\<close>

theorem C7_numeric_failure:
  "(HasSuffix data ''%''
      \<longrightarrow> (snd (TimeOffset_UnmarshalText to data) \<noteq> None
           \<longleftrightarrow> \<not> is_int8_text (TrimSuffix data ''%'')))
   \<and> (\<not> HasSuffix data ''%'' \<and> HasPrefix data ''#''
      \<longrightarrow> (snd (TimeOffset_UnmarshalText to data) \<noteq> None
           \<longleftrightarrow> \<not> is_int8_text (TrimPrefix data ''#'')))
   \<and> TimeOffset_UnmarshalText to ''#abc''
       = (to, Some (wrapError ''error parsing position offset: ''
            (NumError ''ParseInt'' ''abc'' ErrSyntax)))
   \<and> TimeOffset_UnmarshalText to ''abc%''
       = (to, Some (wrapError ''error parsing percentage offset: ''
            (NumError ''ParseInt'' ''abc'' ErrSyntax)))
   \<and> TimeOffset_UnmarshalText to ''200%''
       = (to, Some (wrapError ''error parsing percentage offset: ''
            (NumError ''ParseInt'' ''200'' ErrRange)))"
proof -
  have a: "snd (TimeOffset_UnmarshalText to data) \<noteq> None
           \<longleftrightarrow> \<not> is_int8_text (TrimSuffix data ''%'')" if "HasSuffix data ''%''"
  proof -
    define body where "body = TrimSuffix data ''%''"
    have data: "data = body @ ''%''" unfolding body_def using that by (rule HasSuffix_percentD)
    have "snd (TimeOffset_UnmarshalText to (body @ ''%'')) \<noteq> None \<longleftrightarrow> \<not> is_int8_text body"
      unfolding percent_branch
      using ParseInt_8_fails_iff[of body] by (cases "ParseInt body 10 8") auto
    then have "snd (TimeOffset_UnmarshalText to data) \<noteq> None \<longleftrightarrow> \<not> is_int8_text body"
      by (simp only: data[symmetric])
    then show ?thesis by (simp only: body_def)
  qed
  have b: "snd (TimeOffset_UnmarshalText to data) \<noteq> None
           \<longleftrightarrow> \<not> is_int8_text (TrimPrefix data ''#'')"
    if "\<not> HasSuffix data ''%''" and "HasPrefix data ''#''"
  proof -
    define rest where "rest = TrimPrefix data ''#''"
    have data: "data = ''#'' @ rest" unfolding rest_def using that(2) by (rule HasPrefix_hashD)
    have "\<not> HasSuffix (''#'' @ rest) ''%''" using that(1) data by simp
    from hash_branch[OF this, of to]
    have "snd (TimeOffset_UnmarshalText to (''#'' @ rest)) \<noteq> None \<longleftrightarrow> \<not> is_int8_text rest"
      using ParseInt_8_fails_iff[of rest] by (cases "ParseInt rest 10 8") auto
    then have "snd (TimeOffset_UnmarshalText to data) \<noteq> None \<longleftrightarrow> \<not> is_int8_text rest"
      by (simp only: data[symmetric])
    then show ?thesis by (simp only: rest_def)
  qed
  have p2: "ParseInt ''abc'' 10 8 = Inl (NumError ''ParseInt'' ''abc'' ErrSyntax)"
    by (simp add: parseint_eval)
  have p3: "ParseInt ''200'' 10 8 = Inl (NumError ''ParseInt'' ''200'' ErrRange)"
    by (simp add: parseint_eval)
  have c: "TimeOffset_UnmarshalText to ''#abc''
       = (to, Some (wrapError ''error parsing position offset: ''
            (NumError ''ParseInt'' ''abc'' ErrSyntax)))"
    using hash_branch[of "''abc''" to] p2 by (simp add: HasSuffix_def)
  have d: "TimeOffset_UnmarshalText to ''abc%''
       = (to, Some (wrapError ''error parsing percentage offset: ''
            (NumError ''ParseInt'' ''abc'' ErrSyntax)))"
    using percent_branch[of to "''abc''"] p2 by simp
  have e: "TimeOffset_UnmarshalText to ''200%''
       = (to, Some (wrapError ''error parsing percentage offset: ''
            (NumError ''ParseInt'' ''200'' ErrRange)))"
    using percent_branch[of to "''200''"] p3 by simp
  from a b c d e show ?thesis by blast
qed

theorem C7_numeric_failure_witness:
  "snd (TimeOffset_UnmarshalText TimeOffset_zero ''-128%'') = None
   \<and> snd (TimeOffset_UnmarshalText TimeOffset_zero ''128%'') \<noteq> None
   \<and> snd (TimeOffset_UnmarshalText TimeOffset_zero ''#+127'') = None
   \<and> snd (TimeOffset_UnmarshalText TimeOffset_zero ''#-129'') \<noteq> None"
proof -
  have s: "HasSuffix ''-128%'' ''%''" "HasSuffix ''128%'' ''%''"
    "\<not> HasSuffix ''#+127'' ''%'' \<and> HasPrefix ''#+127'' ''#''"
    "\<not> HasSuffix ''#-129'' ''%'' \<and> HasPrefix ''#-129'' ''#''"
    by (simp_all add: HasSuffix_def HasPrefix_def)
  have t: "is_int8_text (TrimSuffix ''-128%'' ''%'')" "\<not> is_int8_text (TrimSuffix ''128%'' ''%'')"
    "is_int8_text (TrimPrefix ''#+127'' ''#'')" "\<not> is_int8_text (TrimPrefix ''#-129'' ''#'')"
    by (simp_all add: TrimSuffix_def TrimPrefix_def HasSuffix_def HasPrefix_def int8_eval)
  from C7_numeric_failure[of "''-128%''" TimeOffset_zero] s(1) t(1)
  have 1: "snd (TimeOffset_UnmarshalText TimeOffset_zero ''-128%'') = None" by blast
  from C7_numeric_failure[of "''128%''" TimeOffset_zero] s(2) t(2)
  have 2: "snd (TimeOffset_UnmarshalText TimeOffset_zero ''128%'') \<noteq> None" by blast
  from C7_numeric_failure[of "''#+127''" TimeOffset_zero] s(3) t(3)
  have 3: "snd (TimeOffset_UnmarshalText TimeOffset_zero ''#+127'') = None" by blast
  from C7_numeric_failure[of "''#-129''" TimeOffset_zero] s(4) t(4)
  have 4: "snd (TimeOffset_UnmarshalText TimeOffset_zero ''#-129'') \<noteq> None" by blast
  from 1 2 3 4 show ?thesis by blast
qed

section \<open>The range of a decoded percentage\<close>

text \<open>
  Claim C8, as the code has it.  When an input ending in \<open>%\<close> is accepted, the text in
  front of the \<open>%\<close> is a decimal integer \<open>p\<close> from -128 to 127 and the stored
  percentage is the 32-bit float nearest to \<open>p / 100\<close>; it lies between -1.28 and 1.27.
  Nothing confines it to the interval from 0 to 1.
\<close>

theorem C8_percent_range:
  assumes "HasSuffix data ''%''" and "TimeOffset_UnmarshalText to data = (to', None)"
  shows "is_int8_text (TrimSuffix data ''%'')
         \<and> Percent to' = float32 (of_int (int8_value (TrimSuffix data ''%'')) / 100)
         \<and> - (128 / 100) \<le> Percent to' \<and> Percent to' \<le> 127 / 100"
proof -
  define body where "body = TrimSuffix data ''%''"
  have data: "data = body @ ''%''" unfolding body_def using assms(1) by (rule HasSuffix_percentD)
  from assms(2) have r: "TimeOffset_UnmarshalText to (body @ ''%'') = (to', None)"
    by (simp only: data[symmetric])
  then obtain p where p: "ParseInt body 10 8 = Inr p"
    and to': "to' = to\<lparr>Percent := float32 (of_int p / 100)\<rparr>"
    unfolding percent_branch by (cases "ParseInt body 10 8") auto
  from p have ok: "is_int8_text body" and pv: "p = int8_value body"
    by (simp_all add: ParseInt_8_Inr)
  have rng: "- 128 \<le> p" "p \<le> 127" using int8_value_range[OF ok] pv by simp_all
  have "(of_int p :: rat) / 100 \<le> 127 / 100" using rng(2) by simp
  then have "float32 (of_int p / 100) \<le> float32 (127 / 100)"
    unfolding float32_def by (intro fl_round_mono) simp_all
  then have up: "float32 (of_int p / 100) \<le> 127 / 100" using float32_127 by simp
  have "- 128 / 100 \<le> (of_int p :: rat) / 100" using rng(1) by simp
  then have "float32 (- 128 / 100) \<le> float32 (of_int p / 100)"
    unfolding float32_def by (intro fl_round_mono) simp_all
  then have low: "- (128 / 100) \<le> float32 (of_int p / 100)" using float32_m128 by simp
  show ?thesis using ok pv up low by (simp add: to' body_def)
qed

theorem C8_percent_range_witness:
  "is_int8_text (TrimSuffix ''50%'' ''%'')
   \<and> Percent (TimeOffset_zero\<lparr>Percent := 1 / 2\<rparr>)
       = float32 (of_int (int8_value (TrimSuffix ''50%'' ''%'')) / 100)
   \<and> - (128 / 100) \<le> Percent (TimeOffset_zero\<lparr>Percent := 1 / 2\<rparr>)
   \<and> Percent (TimeOffset_zero\<lparr>Percent := 1 / 2\<rparr>) \<le> 127 / 100"
proof -
  have 1: "HasSuffix ''50%'' ''%''" by (simp add: HasSuffix_def)
  have "ParseInt ''50'' 10 8 = Inr 50" by (simp add: parseint_eval)
  then have 2: "TimeOffset_UnmarshalText TimeOffset_zero ''50%''
      = (TimeOffset_zero\<lparr>Percent := 1 / 2\<rparr>, None)"
    using percent_branch[of TimeOffset_zero "''50''"] by (simp add: float32_half)
  show ?thesis by (rule C8_percent_range[OF 1 2])
qed

text \<open>
  The claim as stated fails: \<open>127%\<close> is accepted with a percentage above 1, and
  \<open>-128%\<close> with a percentage below 0.
\<close>

theorem C8_counterexample:
  "TimeOffset_UnmarshalText TimeOffset_zero ''127%''
     = (TimeOffset_zero\<lparr>Percent := 2663383 / 2097152\<rparr>, None)
   \<and> (1::rat) < 2663383 / 2097152
   \<and> TimeOffset_UnmarshalText TimeOffset_zero ''-128%''
     = (TimeOffset_zero\<lparr>Percent := - (5368709 / 4194304)\<rparr>, None)
   \<and> - (5368709 / 4194304) < (0::rat)"
proof -
  have "ParseInt ''127'' 10 8 = Inr 127" by (simp add: parseint_eval)
  then have 1: "TimeOffset_UnmarshalText TimeOffset_zero ''127%''
     = (TimeOffset_zero\<lparr>Percent := 2663383 / 2097152\<rparr>, None)"
    using percent_branch[of TimeOffset_zero "''127''"] by (simp add: float32_127)
  have "ParseInt ''-128'' 10 8 = Inr (- 128)" by (simp add: parseint_eval)
  then have 2: "TimeOffset_UnmarshalText TimeOffset_zero ''-128%''
     = (TimeOffset_zero\<lparr>Percent := - (5368709 / 4194304)\<rparr>, None)"
    using percent_branch[of TimeOffset_zero "''-128''"] float32_m128 by simp
  from 1 2 show ?thesis by simp
qed

section \<open>The text carried by an error\<close>

text \<open>
  Claim C9, as the code has it.  A failing decode returns an error whose text depends on
  the path.  A separator-count failure has the message \<open>invalid duration format: \<close>
  followed by the input as it was given.  A failure of the duration parse has a message
  that ends with the quoted rewritten text (fields and unit names), not the input.  A
  failure of the numeric parse after \<open>%\<close> or \<open>#\<close> wraps a \<open>NumError\<close> whose \<open>Num\<close> is the
  input without its marker.  On its last branch the time offset decoder returns the
  duration decoder's error unchanged; \<open>start\<close> and \<open>end\<close> never fail.
\<close>

theorem C9_error_text:
  "(\<forall>e. snd (Duration_UnmarshalText d data) = Some e
      \<longrightarrow> (seps data < 2 \<or> 3 < seps data
             \<longrightarrow> Error e = ''invalid duration format: '' @ data)
        \<and> (2 \<le> seps data \<and> seps data \<le> 3
             \<longrightarrow> (\<exists>pre. Error e = ''error parsing duration: '' @ pre
                                    @ quote (duration_string data))))
   \<and> (HasSuffix data ''%''
      \<longrightarrow> (\<forall>e. snd (TimeOffset_UnmarshalText to data) = Some e
             \<longrightarrow> (\<exists>k. e = wrapError ''error parsing percentage offset: ''
                            (NumError ''ParseInt'' (TrimSuffix data ''%'') k))))
   \<and> (\<not> HasSuffix data ''%'' \<and> HasPrefix data ''#''
      \<longrightarrow> (\<forall>e. snd (TimeOffset_UnmarshalText to data) = Some e
             \<longrightarrow> (\<exists>k. e = wrapError ''error parsing position offset: ''
                            (NumError ''ParseInt'' (TrimPrefix data ''#'') k))))
   \<and> (data \<noteq> ''start'' \<and> data \<noteq> ''end'' \<and> \<not> HasSuffix data ''%'' \<and> \<not> HasPrefix data ''#''
      \<longrightarrow> snd (TimeOffset_UnmarshalText to data) = snd (Duration_UnmarshalText 0 data))
   \<and> snd (TimeOffset_UnmarshalText to ''start'') = None
   \<and> snd (TimeOffset_UnmarshalText to ''end'') = None"
proof -
  have 1: "Error e = ''invalid duration format: '' @ data"
    if e: "snd (Duration_UnmarshalText d data) = Some e" and c: "seps data < 2 \<or> 3 < seps data"
    for e
    using e by (auto simp: Duration_UnmarshalText_count[OF c])
  have pd: "\<exists>pre. Error e = ''error parsing duration: '' @ pre @ quote (duration_string data)"
    if e: "snd (Duration_UnmarshalText d data) = Some e"
      and a: "2 \<le> seps data" "seps data \<le> 3" for e
  proof -
    from e obtain err where p: "ParseDuration (duration_string data) = Inl err"
      and ee: "e = wrapError ''error parsing duration: '' err"
      unfolding Duration_UnmarshalText_parse[OF a]
      by (cases "ParseDuration (duration_string data)") auto
    from ParseDuration_error[OF p] obtain pre
      where "err = errorString (pre @ quote (duration_string data))" by blast
    with ee show ?thesis by auto
  qed
  have 2: "\<exists>k. e = wrapError ''error parsing percentage offset: ''
                            (NumError ''ParseInt'' (TrimSuffix data ''%'') k)"
    if h: "HasSuffix data ''%''" and e: "snd (TimeOffset_UnmarshalText to data) = Some e" for e
  proof -
    define body where "body = TrimSuffix data ''%''"
    have data: "data = body @ ''%''" unfolding body_def using h by (rule HasSuffix_percentD)
    from e have "snd (TimeOffset_UnmarshalText to (body @ ''%'')) = Some e"
      by (simp only: data[symmetric])
    then obtain err where "ParseInt body 10 8 = Inl err"
      and "e = wrapError ''error parsing percentage offset: '' err"
      unfolding percent_branch by (cases "ParseInt body 10 8") auto
    with ParseInt_8_Inl[of body err] show ?thesis by (auto simp: body_def)
  qed
  have 3: "\<exists>k. e = wrapError ''error parsing position offset: ''
                            (NumError ''ParseInt'' (TrimPrefix data ''#'') k)"
    if h: "\<not> HasSuffix data ''%''" "HasPrefix data ''#''"
      and e: "snd (TimeOffset_UnmarshalText to data) = Some e" for e
  proof -
    define rest where "rest = TrimPrefix data ''#''"
    have data: "data = ''#'' @ rest" unfolding rest_def using h(2) by (rule HasPrefix_hashD)
    have ns: "\<not> HasSuffix (''#'' @ rest) ''%''" using h(1) data by simp
    from e have "snd (TimeOffset_UnmarshalText to (''#'' @ rest)) = Some e"
      by (simp only: data[symmetric])
    then obtain err where "ParseInt rest 10 8 = Inl err"
      and "e = wrapError ''error parsing position offset: '' err"
      unfolding hash_branch[OF ns] by (cases "ParseInt rest 10 8") auto
    with ParseInt_8_Inl[of rest err] show ?thesis by (auto simp: rest_def)
  qed
  have 4: "snd (TimeOffset_UnmarshalText to ''start'') = None"
    "snd (TimeOffset_UnmarshalText to ''end'') = None"
    by (simp_all add: TimeOffset_UnmarshalText_def)
  from 1 pd 2 3 4 delegate_branch[of data to] show ?thesis by blast
qed

theorem C9_error_text_witness:
  "(\<exists>pre. Error (wrapError ''error parsing duration: ''
             (errorString (''time: unknown unit '' @ quote ''sms''
                @ '' in duration '' @ quote ''1h2m3sms'')))
          = ''error parsing duration: '' @ pre @ quote (duration_string ''1:2:3.''))
   \<and> Error (errorString ''invalid duration format: 1'') = ''invalid duration format: '' @ ''1''
   \<and> (\<exists>k. wrapError ''error parsing percentage offset: '' (NumError ''ParseInt'' ''abc'' ErrSyntax)
          = wrapError ''error parsing percentage offset: ''
              (NumError ''ParseInt'' (TrimSuffix ''abc%'' ''%'') k))
   \<and> (\<exists>k. wrapError ''error parsing position offset: '' (NumError ''ParseInt'' ''abc'' ErrSyntax)
          = wrapError ''error parsing position offset: ''
              (NumError ''ParseInt'' (TrimPrefix ''#abc'' ''#'') k))"
proof -
  have a: "snd (Duration_UnmarshalText 0 ''1:2:3.'')
       = Some (wrapError ''error parsing duration: ''
            (errorString (''time: unknown unit '' @ quote ''sms''
               @ '' in duration '' @ quote ''1h2m3sms'')))"
    by (simp add: decode_123_dot)
  have a': "2 \<le> seps ''1:2:3.'' \<and> seps ''1:2:3.'' \<le> 3" by (simp add: seps_def isSep_def)
  have b: "snd (Duration_UnmarshalText 0 ''1'') = Some (errorString ''invalid duration format: 1'')"
    by (simp add: duration_eval)
  have b': "seps ''1'' < 2 \<or> 3 < seps ''1''" by (simp add: seps_def isSep_def)
  have c: "HasSuffix ''abc%'' ''%''" by (simp add: HasSuffix_def)
  have c': "snd (TimeOffset_UnmarshalText TimeOffset_zero ''abc%'')
       = Some (wrapError ''error parsing percentage offset: ''
            (NumError ''ParseInt'' ''abc'' ErrSyntax))"
    by (simp add: decode_abc_percent)
  have d: "\<not> HasSuffix ''#abc'' ''%'' \<and> HasPrefix ''#abc'' ''#''"
    by (simp add: HasSuffix_def HasPrefix_def)
  have d': "snd (TimeOffset_UnmarshalText TimeOffset_zero ''#abc'')
       = Some (wrapError ''error parsing position offset: ''
            (NumError ''ParseInt'' ''abc'' ErrSyntax))"
    by (simp add: decode_hash_abc)
  from C9_error_text[of 0 "''1:2:3.''" TimeOffset_zero] a a'
  have 1: "\<exists>pre. Error (wrapError ''error parsing duration: ''
             (errorString (''time: unknown unit '' @ quote ''sms''
                @ '' in duration '' @ quote ''1h2m3sms'')))
          = ''error parsing duration: '' @ pre @ quote (duration_string ''1:2:3.'')"
    by blast
  from C9_error_text[of 0 "''1''" TimeOffset_zero] b b'
  have 2: "Error (errorString ''invalid duration format: 1'') = ''invalid duration format: '' @ ''1''"
    by blast
  from C9_error_text[of 0 "''abc%''" TimeOffset_zero] c c'
  have 3: "\<exists>k. wrapError ''error parsing percentage offset: '' (NumError ''ParseInt'' ''abc'' ErrSyntax)
          = wrapError ''error parsing percentage offset: ''
              (NumError ''ParseInt'' (TrimSuffix ''abc%'' ''%'') k)"
    by blast
  from C9_error_text[of 0 "''#abc''" TimeOffset_zero] d d'
  have 4: "\<exists>k. wrapError ''error parsing position offset: '' (NumError ''ParseInt'' ''abc'' ErrSyntax)
          = wrapError ''error parsing position offset: ''
              (NumError ''ParseInt'' (TrimPrefix ''#abc'' ''#'') k)"
    by blast
  from 1 2 3 4 show ?thesis by blast
qed

text \<open>
  The claim as stated fails on three of the four paths: the messages for \<open>1:2:3.\<close>,
  \<open>abc%\<close> and \<open>#abc\<close> do not contain the input.
\<close>

theorem C9_counterexample:
  "snd (Duration_UnmarshalText 0 ''1:2:3.'')
     = Some (wrapError ''error parsing duration: ''
          (errorString (''time: unknown unit '' @ quote ''sms''
             @ '' in duration '' @ quote ''1h2m3sms'')))
   \<and> \<not> sublist ''1:2:3.''
         (Error (wrapError ''error parsing duration: ''
            (errorString (''time: unknown unit '' @ quote ''sms''
               @ '' in duration '' @ quote ''1h2m3sms''))))
   \<and> snd (TimeOffset_UnmarshalText TimeOffset_zero ''abc%'')
       = Some (wrapError ''error parsing percentage offset: ''
            (NumError ''ParseInt'' ''abc'' ErrSyntax))
   \<and> \<not> sublist ''abc%''
         (Error (wrapError ''error parsing percentage offset: ''
            (NumError ''ParseInt'' ''abc'' ErrSyntax)))
   \<and> snd (TimeOffset_UnmarshalText TimeOffset_zero ''#abc'')
       = Some (wrapError ''error parsing position offset: ''
            (NumError ''ParseInt'' ''abc'' ErrSyntax))
   \<and> \<not> sublist ''#abc''
         (Error (wrapError ''error parsing position offset: ''
            (NumError ''ParseInt'' ''abc'' ErrSyntax)))"
proof -
  have 1: "\<not> sublist ''1:2:3.''
         (Error (wrapError ''error parsing duration: ''
            (errorString (''time: unknown unit '' @ quote ''sms''
               @ '' in duration '' @ quote ''1h2m3sms''))))"
    by (simp add: message_eval)
  have 2: "\<not> sublist ''abc%''
         (Error (wrapError ''error parsing percentage offset: ''
            (NumError ''ParseInt'' ''abc'' ErrSyntax)))"
    by (simp add: message_eval)
  have 3: "\<not> sublist ''#abc''
         (Error (wrapError ''error parsing position offset: ''
            (NumError ''ParseInt'' ''abc'' ErrSyntax)))"
    by (simp add: message_eval)
  from 1 2 3 show ?thesis
    by (simp only: decode_123_dot decode_abc_percent decode_hash_abc snd_conv simp_thms)
qed

section \<open>Decoding is not atomic\<close>

text \<open>
  Claim C10.  When \<open>TimeOffset.UnmarshalText\<close> reaches its last branch (the input is
  neither \<open>start\<close> nor \<open>end\<close>, does not end in \<open>%\<close> and does not begin with \<open>#\<close>) and the
  duration parse fails, the receiver is left with a \<open>Duration\<close> field that is not nil and
  holds the zero duration, the other fields as they were, and encoding it gives
  \<open>00:00:00\<close>.
\<close>

theorem C10_not_atomic:
  assumes "data \<noteq> ''start''" and "data \<noteq> ''end''"
    and "\<not> HasSuffix data ''%''" and "\<not> HasPrefix data ''#''"
    and "snd (Duration_UnmarshalText 0 data) = Some e"
  shows "TimeOffset_UnmarshalText to data = (to\<lparr>Duration := Some 0\<rparr>, Some e)
         \<and> TimeOffset_MarshalText (fst (TimeOffset_UnmarshalText to data)) = ''00:00:00''"
proof -
  obtain d' where r: "Duration_UnmarshalText 0 data = (d', Some e)"
    using assms(5) by (cases "Duration_UnmarshalText 0 data") auto
  then have "d' = 0" by (rule Duration_UnmarshalText_error_keeps)
  with r assms(1-4) have "TimeOffset_UnmarshalText to data = (to\<lparr>Duration := Some 0\<rparr>, Some e)"
    by (simp add: TimeOffset_UnmarshalText_def)
  then show ?thesis
    by (simp add: TimeOffset_MarshalText_def Duration_MarshalText_def)
qed

theorem C10_not_atomic_witness:
  "TimeOffset_UnmarshalText TimeOffset_zero ''1:2''
     = (TimeOffset_zero\<lparr>Duration := Some 0\<rparr>,
        Some (errorString ''invalid duration format: 1:2''))
   \<and> TimeOffset_MarshalText (fst (TimeOffset_UnmarshalText TimeOffset_zero ''1:2''))
       = ''00:00:00''"
proof -
  have 1: "''1:2'' \<noteq> ''start''" and 2: "''1:2'' \<noteq> ''end''" by simp_all
  have 3: "\<not> HasSuffix ''1:2'' ''%''" by (simp add: HasSuffix_def)
  have 4: "\<not> HasPrefix ''1:2'' ''#''" by (simp add: HasPrefix_def)
  have 5: "snd (Duration_UnmarshalText 0 ''1:2'')
           = Some (errorString ''invalid duration format: 1:2'')"
    by code_simp
  show ?thesis by (rule C10_not_atomic[OF 1 2 3 4 5])
qed

end
